theory Spec2Isabelle
  imports Main "HOL-Library.AList" "HOL-Library.Char_ord" "HOL-Library.List_Lexorder"
begin

section \<open>Python values, exceptions and dictionaries\<close>

text \<open>
  The program of \<^verbatim>\<open>src/rssfilter/__init__.py\<close> is dynamically typed: a feed is a
  dictionary with the keys \<^verbatim>\<open>'feed'\<close> (the feed-level metadata, a dictionary) and
  \<^verbatim>\<open>'entries'\<close> (a list of dictionaries), and every lookup may raise. The values
  of the model are the values such a feed holds. A dictionary is an association list
  in insertion order with string keys; \<open>PFPDict\<close> is a dictionary of the class
  \<^verbatim>\<open>feedparser.FeedParserDict\<close>, which is a subclass of \<^verbatim>\<open>dict\<close>. A
  \<open>PDateTime\<close> is a timezone-naive \<^verbatim>\<open>datetime.datetime\<close>, given by its position
  on the time line; a \<open>PStructTime\<close> is a \<^verbatim>\<open>time.struct_time\<close>, given by its fields.
\<close>

datatype pyval =
    PNone
  | PInt int
  | PStr string
  | PDateTime int
  | PStructTime "int list"
  | PList "pyval list"
  | PDict "(string \<times> pyval) list"
  | PFPDict "(string \<times> pyval) list"

type_synonym dict = "(string \<times> pyval) list"

text \<open>
  Exceptions are values. \<open>FeedFetchError\<close> and \<open>FeedFilterError\<close> are the two
  exception classes of the program, the second with its message. \<open>ReError\<close> is
  \<^verbatim>\<open>re.error\<close>; \<open>LibraryError\<close> is any exception raised inside a call of an
  external library (time, datetime, feedgenerator, bs4). \<open>Unmodelled\<close> marks the
  few operations of Python on values for which the model makes no prediction.
\<close>

datatype error =
    FeedFetchError
  | FeedFilterError string
  | KeyError string
  | TypeError
  | ValueError
  | AttributeError
  | AssertionError
  | ReError
  | LibraryError
  | Unmodelled

definition ebind :: "error + 'a \<Rightarrow> ('a \<Rightarrow> error + 'b) \<Rightarrow> error + 'b" where
  "ebind m f = (case m of Inl e \<Rightarrow> Inl e | Inr x \<Rightarrow> f x)"

text \<open>Truth value testing (\<^verbatim>\<open>not x\<close>, \<^verbatim>\<open>if x:\<close>).\<close>

fun truthy :: "pyval \<Rightarrow> bool" where
  "truthy PNone = False"
| "truthy (PInt n) = (n \<noteq> 0)"
| "truthy (PStr s) = (s \<noteq> [])"
| "truthy (PDateTime t) = True"
| "truthy (PStructTime fs) = (fs \<noteq> [])"
| "truthy (PList xs) = (xs \<noteq> [])"
| "truthy (PDict d) = (d \<noteq> [])"
| "truthy (PFPDict d) = (d \<noteq> [])"

text \<open>
  \<^verbatim>\<open>x[k]\<close> for a string \<open>k\<close>: a missing key raises KeyError, a value that is not a
  dictionary raises TypeError. A FeedParserDict is read through its stored items (the
  key aliases feedparser adds on top are the library's own; the program reads aliased
  keys only after \<^verbatim>\<open>_cast_feed_to_primitives\<close> has made the dictionaries plain).
\<close>

fun getitem :: "pyval \<Rightarrow> string \<Rightarrow> error + pyval" where
  "getitem (PDict d) k = (case map_of d k of None \<Rightarrow> Inl (KeyError k) | Some v \<Rightarrow> Inr v)"
| "getitem (PFPDict d) k = (case map_of d k of None \<Rightarrow> Inl (KeyError k) | Some v \<Rightarrow> Inr v)"
| "getitem _ k = Inl TypeError"

text \<open>\<^verbatim>\<open>x[k] = v\<close>: an existing key keeps its place, a new key goes last.\<close>

fun setitem :: "pyval \<Rightarrow> string \<Rightarrow> pyval \<Rightarrow> error + pyval" where
  "setitem (PDict d) k v = Inr (PDict (AList.update k v d))"
| "setitem (PFPDict d) k v = Inr (PFPDict (AList.update k v d))"
| "setitem _ k v = Inl TypeError"

text \<open>\<^verbatim>\<open>x.get(k, None)\<close> and \<^verbatim>\<open>x.pop(k)\<close>, which only dictionaries have.\<close>

fun py_get :: "pyval \<Rightarrow> string \<Rightarrow> error + pyval" where
  "py_get (PDict d) k = Inr (case map_of d k of None \<Rightarrow> PNone | Some v \<Rightarrow> v)"
| "py_get (PFPDict d) k = Inr (case map_of d k of None \<Rightarrow> PNone | Some v \<Rightarrow> v)"
| "py_get _ k = Inl AttributeError"

fun py_pop :: "pyval \<Rightarrow> string \<Rightarrow> error + (pyval \<times> pyval)" where
  "py_pop (PDict d) k =
     (case map_of d k of None \<Rightarrow> Inl (KeyError k) | Some v \<Rightarrow> Inr (v, PDict (AList.delete k d)))"
| "py_pop (PFPDict d) k =
     (case map_of d k of None \<Rightarrow> Inl (KeyError k) | Some v \<Rightarrow> Inr (v, PFPDict (AList.delete k d)))"
| "py_pop (PList xs) k = Inl TypeError"
| "py_pop _ k = Inl AttributeError"

text \<open>
  \<^verbatim>\<open>dict(x)\<close>: a dictionary of either class gives a plain dictionary with the same
  items; an empty sequence gives the empty dictionary; a non-empty list would be read
  as a sequence of key-value pairs, which the model does not follow.
\<close>

fun to_dict :: "pyval \<Rightarrow> error + dict" where
  "to_dict (PDict d) = Inr d"
| "to_dict (PFPDict d) = Inr d"
| "to_dict (PList []) = Inr []"
| "to_dict (PList (x # xs)) = Inl Unmodelled"
| "to_dict (PStr []) = Inr []"
| "to_dict (PStr (c # cs)) = Inl ValueError"
| "to_dict (PStructTime []) = Inr []"
| "to_dict (PStructTime (n # ns)) = Inl TypeError"
| "to_dict _ = Inl TypeError"

text \<open>The elements a \<^verbatim>\<open>for\<close> loop over \<open>x\<close> visits.\<close>

fun py_iter :: "pyval \<Rightarrow> error + pyval list" where
  "py_iter (PList xs) = Inr xs"
| "py_iter (PStr s) = Inr (map (\<lambda>c. PStr [c]) s)"
| "py_iter (PStructTime fs) = Inr (map PInt fs)"
| "py_iter (PDict d) = Inr (map (\<lambda>kv. PStr (fst kv)) d)"
| "py_iter (PFPDict d) = Inr (map (\<lambda>kv. PStr (fst kv)) d)"
| "py_iter _ = Inl TypeError"

section \<open>The entry normalizer\<close>

text \<open>
  \<^verbatim>\<open>if isinstance(v, feedparser.FeedParserDict): d[k] = dict(v)\<close>, for every item
  \<open>(k, v)\<close> of a dictionary \<open>d\<close>: each value of that class is replaced, in place, by
  a plain dictionary.
\<close>

fun cast_value :: "pyval \<Rightarrow> pyval" where
  "cast_value (PFPDict d) = PDict d"
| "cast_value v = v"

definition cast_values :: "dict \<Rightarrow> dict" where
  "cast_values d = map (\<lambda>kv. (fst kv, cast_value (snd kv))) d"

text \<open>The loop over \<^verbatim>\<open>feed['entries']\<close> (lines 35 to 41), building \<^verbatim>\<open>nuentries\<close>.\<close>

fun cast_entries :: "pyval list \<Rightarrow> pyval list \<Rightarrow> error + pyval list" where
  "cast_entries [] nuentries = Inr nuentries"
| "cast_entries (i # rest) nuentries =
     ebind (to_dict i) (\<lambda>d. cast_entries rest (nuentries @ [PDict (cast_values d)]))"

definition cast_feed_to_primitives :: "pyval \<Rightarrow> error + pyval" where
  "cast_feed_to_primitives feed =
     ebind (to_dict feed) (\<lambda>d0.
     ebind (getitem (PDict d0) ''feed'') (\<lambda>m.
     ebind (to_dict m) (\<lambda>m'.
     ebind (setitem (PDict d0) ''feed'' (PDict (cast_values m'))) (\<lambda>feed1.
     ebind (getitem feed1 ''entries'') (\<lambda>es.
     ebind (py_iter es) (\<lambda>items.
     ebind (cast_entries items []) (\<lambda>nuentries.
       setitem feed1 ''entries'' (PList nuentries))))))))"

text \<open>
  A feed structure is normalized when the feed, its metadata and every entry are plain
  dictionaries none of whose values is a FeedParserDict, and the entries are a list.
\<close>

fun is_fpdict :: "pyval \<Rightarrow> bool" where
  "is_fpdict (PFPDict d) = True"
| "is_fpdict _ = False"

fun plain_dict :: "pyval \<Rightarrow> bool" where
  "plain_dict (PDict d) = list_all (\<lambda>kv. \<not> is_fpdict (snd kv)) d"
| "plain_dict _ = False"

fun normalized :: "pyval \<Rightarrow> bool" where
  "normalized (PDict d) =
     (case map_of d ''feed'' of
        None \<Rightarrow> False
      | Some m \<Rightarrow> plain_dict m \<and>
          (case map_of d ''entries'' of
             Some (PList es) \<Rightarrow> list_all plain_dict es
           | _ \<Rightarrow> False))"
| "normalized _ = False"

section \<open>External collaborators\<close>

text \<open>
  What the feed generator (\<^verbatim>\<open>feedgenerator.Rss201rev2Feed\<close>) has been given: the
  three positional arguments, the remaining feed-level fields, and the items added.
\<close>

record rss =
  rss_title :: pyval
  rss_link :: pyval
  rss_description :: pyval
  rss_extra :: dict
  rss_items :: "dict list"

text \<open>
  The libraries the program calls are parameters of the model. \<open>parse\<close> is
  \<^verbatim>\<open>feedparser.parse\<close>, which fetches the source and returns a FeedParserDict.
  \<open>re_compile\<close> is \<^verbatim>\<open>re.compile\<close>: \<open>None\<close> when the source of the
  regular expression is malformed (\<^verbatim>\<open>re.error\<close>), otherwise the compiled pattern,
  given by the strings in which its \<^verbatim>\<open>search\<close> finds a match. \<open>from_struct\<close> is
  \<^verbatim>\<open>datetime.datetime.fromtimestamp(time.mktime(x))\<close>. \<open>feed_ok\<close> tells whether
  the constructor of the feed generator accepts its arguments, \<open>item_ok\<close> whether
  \<^verbatim>\<open>add_item\<close> accepts the fields of an entry; \<open>write_string\<close> and \<open>prettify\<close>
  are the serializer and the pretty-printer. \<open>None\<close> and \<open>False\<close> stand for an
  exception raised inside the library.
\<close>

record env =
  parse :: "string \<Rightarrow> pyval"
  re_compile :: "string \<Rightarrow> (string \<Rightarrow> bool) option"
  from_struct :: "pyval \<Rightarrow> int option"
  feed_ok :: "rss \<Rightarrow> bool"
  item_ok :: "dict \<Rightarrow> bool"
  write_string :: "rss \<Rightarrow> string option"
  prettify :: "string \<Rightarrow> string option"

section \<open>Fetching and preparing a feed\<close>

fun is_datetime :: "pyval \<Rightarrow> bool" where
  "is_datetime (PDateTime t) = True"
| "is_datetime _ = False"

text \<open>\<^verbatim>\<open>200 <= s < 300\<close>; an integer cannot be compared with a value of another type.\<close>

fun status_ok :: "pyval \<Rightarrow> error + bool" where
  "status_ok (PInt n) = Inr (200 \<le> n \<and> n < 300)"
| "status_ok _ = Inl TypeError"

text \<open>The loop of lines 59 to 61, over the entries the normalizer has made plain.\<close>

fun add_pubdates :: "env \<Rightarrow> pyval list \<Rightarrow> error + pyval list" where
  "add_pubdates env [] = Inr []"
| "add_pubdates env (i # rest) =
     ebind (py_get i ''pubdate'') (\<lambda>p.
     ebind (if \<not> is_datetime p
            then ebind (getitem i ''published_parsed'') (\<lambda>pp.
                   case from_struct env pp of
                     None \<Rightarrow> Inl LibraryError
                   | Some t \<Rightarrow> setitem i ''pubdate'' (PDateTime t))
            else Inr i) (\<lambda>i'.
     ebind (add_pubdates env rest) (\<lambda>rest'. Inr (i' # rest'))))"

text \<open>
  The result is paired with the sources handed to \<^verbatim>\<open>feedparser.parse\<close> during the
  call, in order: the network requests made.
\<close>

definition fetch_and_prepare_feed :: "env \<Rightarrow> string \<Rightarrow> (error + pyval) \<times> string list" where
  "fetch_and_prepare_feed env feed_url =
     (let f = parse env feed_url in
      (ebind (getitem f ''feed'') (\<lambda>m.
         if \<not> truthy m then Inl FeedFetchError
         else ebind (getitem f ''status'') (\<lambda>s.
              ebind (status_ok s) (\<lambda>ok.
                if \<not> ok then Inl FeedFetchError
                else ebind (cast_feed_to_primitives f) (\<lambda>f.
                     ebind (getitem f ''entries'') (\<lambda>es.
                     ebind (py_iter es) (\<lambda>items.
                     ebind (add_pubdates env items) (\<lambda>items'.
                       setitem f ''entries'' (PList items')))))))),
       [feed_url]))"

fun has_datetime_pubdate :: "pyval \<Rightarrow> bool" where
  "has_datetime_pubdate (PDict d) =
     (case map_of d ''pubdate'' of Some (PDateTime t) \<Rightarrow> True | _ \<Rightarrow> False)"
| "has_datetime_pubdate _ = False"

section \<open>Filters\<close>

text \<open>
  A filter is a function of Python on feeds. A feed is an object: a filter may modify
  the feed it is given and return it, as the filters of this program do (lines 102 and
  103, lines 140 and 141), or it may return another object. A \<open>filt\<close> is what a filter
  returns, as a function of the value of the feed it is given, or the exception it
  raises; a caller that goes on with the returned feed only (\<^verbatim>\<open>filter_feed\<close>,
  \<^verbatim>\<open>AND_filter\<close>) sees no more of it. An \<open>effect\<close> is what a filter returns
  together with the value that the feed it was given holds after the call, which
  \<^verbatim>\<open>orfilter\<close> goes on to use. \<open>in_place\<close> is the effect of a filter that
  modifies the feed it is given and returns it.
\<close>

type_synonym filt = "pyval \<Rightarrow> error + pyval"

type_synonym effect = "pyval \<Rightarrow> error + (pyval \<times> pyval)"

definition in_place :: "filt \<Rightarrow> effect" where
  "in_place f = (\<lambda>feed. ebind (f feed) (\<lambda>feed. Inr (feed, feed)))"

text \<open>\<^verbatim>\<open>re_pattern.search(v)\<close>: only a string can be searched.\<close>

fun re_search :: "(string \<Rightarrow> bool) \<Rightarrow> pyval \<Rightarrow> error + bool" where
  "re_search re_pattern (PStr s) = Inr (re_pattern s)"
| "re_search re_pattern _ = Inl TypeError"

fun fil_loop :: "(string \<Rightarrow> bool) \<Rightarrow> string \<Rightarrow> pyval list \<Rightarrow> pyval list \<Rightarrow> error + pyval list" where
  "fil_loop re_pattern key [] nufeed = Inr nufeed"
| "fil_loop re_pattern key (i # rest) nufeed =
     ebind (getitem i key) (\<lambda>v.
     ebind (re_search re_pattern v) (\<lambda>found.
       fil_loop re_pattern key rest (if found then nufeed @ [i] else nufeed)))"

definition fil :: "(string \<Rightarrow> bool) \<Rightarrow> string \<Rightarrow> filt" where
  "fil re_pattern key feed =
     ebind (getitem feed ''entries'') (\<lambda>es.
     ebind (py_iter es) (\<lambda>items.
     ebind (fil_loop re_pattern key items []) (\<lambda>nufeed.
       setitem feed ''entries'' (PList nufeed))))"

text \<open>
  The pattern argument is the source of a regular expression, compiled once when the
  filter is built, or a pattern compiled already.
\<close>

datatype re_arg = Source string | Compiled "string \<Rightarrow> bool"

fun entry_field_re_filter :: "env \<Rightarrow> re_arg \<Rightarrow> string \<Rightarrow> error + filt" where
  "entry_field_re_filter env (Source s) key =
     (case re_compile env s of None \<Rightarrow> Inl ReError | Some re_pattern \<Rightarrow> Inr (fil re_pattern key))"
| "entry_field_re_filter env (Compiled re_pattern) key = Inr (fil re_pattern key)"

definition in_url_filter :: "env \<Rightarrow> re_arg \<Rightarrow> error + filt" where
  "in_url_filter env re_pattern = entry_field_re_filter env re_pattern ''link''"

definition in_title_filter :: "env \<Rightarrow> re_arg \<Rightarrow> error + filt" where
  "in_title_filter env re_pattern = entry_field_re_filter env re_pattern ''title''"

definition AND_filter :: "filt \<Rightarrow> filt \<Rightarrow> filt" where
  "AND_filter filter1 filter2 = (\<lambda>F. ebind (filter2 F) filter1)"

subsection \<open>OR composition\<close>

text \<open>\<^verbatim>\<open>a + b\<close>; the sum of two struct_time values is a tuple, which the model lacks.\<close>

fun py_add :: "pyval \<Rightarrow> pyval \<Rightarrow> error + pyval" where
  "py_add (PList a) (PList b) = Inr (PList (a @ b))"
| "py_add (PStr a) (PStr b) = Inr (PStr (a @ b))"
| "py_add (PInt a) (PInt b) = Inr (PInt (a + b))"
| "py_add (PStructTime a) (PStructTime b) = Inl Unmodelled"
| "py_add _ _ = Inl TypeError"

text \<open>Only hashable values can be members of a set.\<close>

fun hashable :: "pyval \<Rightarrow> bool" where
  "hashable (PList xs) = False"
| "hashable (PDict d) = False"
| "hashable (PFPDict d) = False"
| "hashable _ = True"

text \<open>The loop of lines 133 to 136, with its two accumulators.\<close>

fun dedup_loop :: "pyval list \<Rightarrow> pyval set \<Rightarrow> pyval list \<Rightarrow> error + (pyval set \<times> pyval list)" where
  "dedup_loop [] seen_urls entries = Inr (seen_urls, entries)"
| "dedup_loop (i # rest) seen_urls entries =
     ebind (getitem i ''link'') (\<lambda>l.
       if \<not> hashable l then Inl TypeError
       else if l \<in> seen_urls then dedup_loop rest seen_urls entries
       else dedup_loop rest (insert l seen_urls) (entries @ [i]))"

text \<open>
  \<^verbatim>\<open>a < b\<close>. Integers, strings, naive datetimes and struct_times are each ordered
  among themselves; values of different types, \<^verbatim>\<open>None\<close> and dictionaries are not
  ordered and the comparison raises. Lists compare element by element, which the
  model does not follow.
\<close>

fun py_lt :: "pyval \<Rightarrow> pyval \<Rightarrow> error + bool" where
  "py_lt (PInt a) (PInt b) = Inr (a < b)"
| "py_lt (PStr a) (PStr b) = Inr (a < b)"
| "py_lt (PDateTime a) (PDateTime b) = Inr (a < b)"
| "py_lt (PStructTime a) (PStructTime b) = Inr (a < b)"
| "py_lt (PList a) (PList b) = Inl Unmodelled"
| "py_lt _ _ = Inl TypeError"

text \<open>
  \<^verbatim>\<open>entries.sort(key=lambda i: i['pubdate'])\<close>: the keys are computed first, one per
  entry and in order; the entries are then sorted by their keys, ascending and stably,
  comparing keys with \<^verbatim>\<open><\<close> only. The sort is written as an insertion sort that
  puts an entry in front of the first later entry whose key is not smaller.
\<close>

fun pubdate_keys :: "pyval list \<Rightarrow> error + (pyval \<times> pyval) list" where
  "pubdate_keys [] = Inr []"
| "pubdate_keys (i # rest) =
     ebind (getitem i ''pubdate'') (\<lambda>k.
     ebind (pubdate_keys rest) (\<lambda>ks. Inr ((k, i) # ks)))"

fun insort_py :: "pyval \<times> pyval \<Rightarrow> (pyval \<times> pyval) list \<Rightarrow> error + (pyval \<times> pyval) list" where
  "insort_py x [] = Inr [x]"
| "insort_py x (y # ys) =
     ebind (py_lt (fst y) (fst x)) (\<lambda>smaller.
       if smaller then ebind (insort_py x ys) (\<lambda>r. Inr (y # r))
       else Inr (x # y # ys))"

fun sort_py :: "(pyval \<times> pyval) list \<Rightarrow> error + (pyval \<times> pyval) list" where
  "sort_py [] = Inr []"
| "sort_py (x # xs) = ebind (sort_py xs) (insort_py x)"

definition sort_by_pubdate :: "pyval list \<Rightarrow> error + pyval list" where
  "sort_by_pubdate entries =
     ebind (pubdate_keys entries) (\<lambda>keyed.
     ebind (sort_py keyed) (\<lambda>sorted. Inr (map snd sorted)))"

text \<open>
  Lines 131 to 141 of \<^verbatim>\<open>orfilter\<close>, once both filters have returned: \<open>filtered1\<close>
  and \<open>filtered2\<close> are what they returned, \<open>F\<close> is the feed \<^verbatim>\<open>orfilter\<close> was
  given, as \<open>filter2\<close> has left it. The entries are stored in \<open>F\<close>, and \<open>F\<close>
  is returned.
\<close>

definition orfilter_merge :: "pyval \<Rightarrow> pyval \<Rightarrow> pyval \<Rightarrow> error + pyval" where
  "orfilter_merge filtered1 filtered2 F =
     ebind (getitem filtered1 ''entries'') (\<lambda>e1.
     ebind (getitem filtered2 ''entries'') (\<lambda>e2.
     ebind (py_add e1 e2) (\<lambda>both.
     ebind (py_iter both) (\<lambda>items.
     ebind (dedup_loop items {} []) (\<lambda>(seen_urls, entries).
     ebind (sort_by_pubdate entries) (\<lambda>entries.
       if length entries = card seen_urls
       then setitem F ''entries'' (PList entries)
       else Inl AssertionError))))))"

text \<open>
  \<open>filter1\<close> runs on a deep copy of \<open>F\<close>: it sees the feed as it was, and whatever
  it does to the copy is lost, but for what it returns. \<open>filter2\<close> runs on \<open>F\<close>
  itself, and may leave it changed. The filter that \<^verbatim>\<open>OR_filter\<close> builds modifies
  \<open>F\<close> and returns it.
\<close>

definition OR_filter :: "effect \<Rightarrow> effect \<Rightarrow> filt" where
  "OR_filter filter1 filter2 = (\<lambda>F.
     ebind (filter1 F) (\<lambda>(filtered1, copy).
     ebind (filter2 F) (\<lambda>(filtered2, F).
       orfilter_merge filtered1 filtered2 F)))"

section \<open>The transform pipeline\<close>

text \<open>
  Lines 72 to 81 of \<^verbatim>\<open>filter_feed\<close>: the description is filled in, then title, link
  and description are taken out of the metadata. The result is these three and the
  feed with what is left of its metadata.
\<close>

definition backfill_description :: "pyval \<Rightarrow> error + pyval" where
  "backfill_description m =
     ebind (py_get m ''description'') (\<lambda>d.
       if \<not> truthy d then
         ebind (getitem m ''title'') (\<lambda>t.
           if truthy t then setitem m ''description'' t
           else ebind (getitem m ''link'') (\<lambda>l.
             if truthy l then setitem m ''description'' l
             else setitem m ''description'' (PStr ''Unknown title'')))
       else Inr m)"

definition feed_header :: "pyval \<Rightarrow> error + (pyval \<times> pyval \<times> pyval \<times> pyval)" where
  "feed_header f =
     ebind (getitem f ''feed'') (\<lambda>m.
     ebind (backfill_description m) (\<lambda>m.
     ebind (py_pop m ''title'') (\<lambda>(title, m).
     ebind (py_pop m ''link'') (\<lambda>(link, m).
     ebind (py_pop m ''description'') (\<lambda>(description, m).
     ebind (setitem f ''feed'' m) (\<lambda>f.
       Inr (title, link, description, f)))))))"

text \<open>
  \<^verbatim>\<open>**x\<close> unpacks a dictionary into keyword arguments; any other value raises
  TypeError. Lines 84 to 88 for one entry: the description is copied from the summary
  when it is missing, and the entry is unpacked (an entry that is not a dictionary
  fails there at the latest).
\<close>

fun py_kwargs :: "pyval \<Rightarrow> error + dict" where
  "py_kwargs (PDict d) = Inr d"
| "py_kwargs (PFPDict d) = Inr d"
| "py_kwargs _ = Inl TypeError"

definition item_fields :: "pyval \<Rightarrow> error + dict" where
  "item_fields i =
     ebind (py_kwargs i) (\<lambda>d.
       Inr (if map_of d ''description'' = None
            then (case map_of d ''summary'' of
                    None \<Rightarrow> d
                  | Some v \<Rightarrow> AList.update ''description'' v d)
            else d))"

fun add_items :: "env \<Rightarrow> pyval list \<Rightarrow> rss \<Rightarrow> error + rss" where
  "add_items env [] out = Inr out"
| "add_items env (i # rest) out =
     ebind (item_fields i) (\<lambda>fields.
       if item_ok env fields
       then add_items env rest (out\<lparr>rss_items := rss_items out @ [fields]\<rparr>)
       else Inl LibraryError)"

text \<open>\<^verbatim>\<open>feedgenerator.Rss201rev2Feed(title, link, description, **extra)\<close>.\<close>

definition new_feed :: "env \<Rightarrow> pyval \<Rightarrow> pyval \<Rightarrow> pyval \<Rightarrow> dict \<Rightarrow> error + rss" where
  "new_feed env title link description extra =
     (let out = \<lparr>rss_title = title, rss_link = link, rss_description = description,
                 rss_extra = extra, rss_items = []\<rparr>
      in if feed_ok env out then Inr out else Inl LibraryError)"

text \<open>Lines 72 to 91 of \<^verbatim>\<open>filter_feed\<close>, on the feed the transform has returned.\<close>

definition emit_feed :: "env \<Rightarrow> pyval \<Rightarrow> error + string" where
  "emit_feed env f =
     ebind (feed_header f) (\<lambda>(title, link, description, f).
     ebind (getitem f ''feed'') (\<lambda>m.
     ebind (py_kwargs m) (\<lambda>extra.
     ebind (new_feed env title link description extra) (\<lambda>out.
     ebind (getitem f ''entries'') (\<lambda>es.
     ebind (py_iter es) (\<lambda>items.
     ebind (add_items env items out) (\<lambda>out.
       case write_string env out of
         None \<Rightarrow> Inl LibraryError
       | Some feedstr \<Rightarrow>
           (case prettify env feedstr of
              None \<Rightarrow> Inl LibraryError
            | Some pretty \<Rightarrow> Inr pretty))))))))"

definition filter_feed :: "env \<Rightarrow> string \<Rightarrow> filt \<Rightarrow> (error + string) \<times> string list" where
  "filter_feed env feed_url transform_func =
     (case fetch_and_prepare_feed env feed_url of
        (r, fetched) \<Rightarrow>
          (ebind r (\<lambda>f. ebind (transform_func f) (\<lambda>f. emit_feed env f)), fetched))"

section \<open>The builder\<close>

fun map_err :: "('a \<Rightarrow> error + 'b) \<Rightarrow> 'a list \<Rightarrow> error + 'b list" where
  "map_err g [] = Inr []"
| "map_err g (x # xs) = ebind (g x) (\<lambda>y. ebind (map_err g xs) (\<lambda>ys. Inr (y # ys)))"

text \<open>
  The filters that \<^verbatim>\<open>builtin_main\<close> hands to \<^verbatim>\<open>OR_filter\<close> are the ones it has
  built with \<^verbatim>\<open>entry_field_re_filter\<close>, which store the entries in the feed they
  are given and return that feed: their effect is \<open>in_place\<close>.
\<close>

definition builtin_main ::
  "env \<Rightarrow> string \<Rightarrow> re_arg list \<Rightarrow> re_arg list \<Rightarrow> string \<Rightarrow> (error + string) \<times> string list" where
  "builtin_main env feed url_filters title_filters operation =
     (case map_err (in_title_filter env) title_filters of
        Inl e \<Rightarrow> (Inl e, [])
      | Inr title_filters \<Rightarrow>
     (case map_err (in_url_filter env) url_filters of
        Inl e \<Rightarrow> (Inl e, [])
      | Inr url_filters \<Rightarrow>
     (let both_filters = title_filters @ url_filters in
      if operation \<notin> set [''OR'', ''AND'']
      then (Inl (FeedFilterError
                  (''Operation can only be AND or OR: '' @ [CHR 0x27] @ operation @ [CHR 0x27])), [])
      else if length both_filters = 0
      then (Inl (FeedFilterError ''No filters provided!''), [])
      else if length both_filters = 1
      then filter_feed env feed (both_filters ! 0)
      else if length both_filters = 2
      then (if operation = ''OR''
            then filter_feed env feed
                   (OR_filter (in_place (both_filters ! 0)) (in_place (both_filters ! 1)))
            else filter_feed env feed (AND_filter (both_filters ! 0) (both_filters ! 1)))
      else (Inl (FeedFilterError ''Too many filters given; use Regex to re-use some?''), []))))"

section \<open>Exceptions of Python and of the program\<close>

text \<open>
  The exceptions that an operation of Python or a library call raises, as opposed to
  the ones the program raises itself (its two exception classes and its assertion).
\<close>

definition op_error :: "error \<Rightarrow> bool" where
  "op_error e = (case e of FeedFetchError \<Rightarrow> False | FeedFilterError m \<Rightarrow> False
                 | AssertionError \<Rightarrow> False | _ \<Rightarrow> True)"

section \<open>A small feed and its environment\<close>

text \<open>
  A feed of two entries as the parser returns it, the newer entry first, and an
  environment that serves it at one address and a 404 with no feed data anywhere
  else. Its regular expressions are plain words, found anywhere in the string; an
  opening parenthesis alone does not compile. Its feed generator takes any feed, and
  an item that has a title, a link and a description, the three arguments
  \<^verbatim>\<open>add_item\<close> requires.
\<close>

fun starts_with :: "string \<Rightarrow> string \<Rightarrow> bool" where
  "starts_with [] s = True"
| "starts_with (c # cs) [] = False"
| "starts_with (c # cs) (x # xs) = (c = x \<and> starts_with cs xs)"

fun contains :: "string \<Rightarrow> string \<Rightarrow> bool" where
  "contains p [] = (p = [])"
| "contains p (x # xs) = (starts_with p (x # xs) \<or> contains p xs)"

definition example_parsed :: pyval where
  "example_parsed =
     PFPDict [(''feed'', PFPDict [(''title'', PStr ''News''), (''link'', PStr ''http://x'')]),
              (''entries'', PList
                 [PFPDict [(''link'', PStr ''b''), (''title'', PStr ''Python news''),
                           (''summary'', PStr ''All about Python''),
                           (''published_parsed'', PStructTime [2020, 1, 2])],
                  PFPDict [(''link'', PStr ''a''), (''title'', PStr ''Go release''),
                           (''summary'', PStr ''A new Go''),
                           (''published_parsed'', PStructTime [2020, 1, 1])]]),
              (''status'', PInt 200)]"

definition example_env :: env where
  "example_env =
     \<lparr>parse = (\<lambda>url. if url = ''http://feed'' then example_parsed
                     else PFPDict [(''feed'', PFPDict []), (''entries'', PList []),
                                   (''status'', PInt 404)]),
      re_compile = (\<lambda>s. if s = ''('' then None else Some (contains s)),
      from_struct = (\<lambda>v. case v of PStructTime [y, m, d] \<Rightarrow> Some (y * 10000 + m * 100 + d)
                            | _ \<Rightarrow> None),
      feed_ok = (\<lambda>out. True),
      item_ok = (\<lambda>fields. map_of fields ''title'' \<noteq> None \<and> map_of fields ''link'' \<noteq> None \<and>
                          map_of fields ''description'' \<noteq> None),
      write_string = (\<lambda>out. Some ''<rss/>''),
      prettify = (\<lambda>s. Some s)\<rparr>"

definition example_entry_a :: pyval where
  "example_entry_a =
     PDict [(''link'', PStr ''a''), (''title'', PStr ''Go release''),
            (''summary'', PStr ''A new Go''),
            (''published_parsed'', PStructTime [2020, 1, 1]), (''pubdate'', PDateTime 20200101)]"

definition example_entry_b :: pyval where
  "example_entry_b =
     PDict [(''link'', PStr ''b''), (''title'', PStr ''Python news''),
            (''summary'', PStr ''All about Python''),
            (''published_parsed'', PStructTime [2020, 1, 2]), (''pubdate'', PDateTime 20200102)]"

definition example_feed :: pyval where
  "example_feed =
     PDict [(''feed'', PDict [(''title'', PStr ''News''), (''link'', PStr ''http://x'')]),
            (''entries'', PList [example_entry_b, example_entry_a]),
            (''status'', PInt 200)]"

section \<open>Vocabulary of the claims about filters\<close>

text \<open>
  An entry as the data model has it, as far as the field \<open>key\<close> goes: a plain
  dictionary whose value at \<open>key\<close>, if it has one, is a string. \<open>has_key\<close> says
  that the entry has the field; \<open>field_matches\<close> that the field is a string in which
  the pattern finds a match.
\<close>

fun str_entry :: "string \<Rightarrow> pyval \<Rightarrow> bool" where
  "str_entry key (PDict d) =
     (case map_of d key of None \<Rightarrow> True | Some (PStr s) \<Rightarrow> True | Some _ \<Rightarrow> False)"
| "str_entry key _ = False"

fun has_key :: "string \<Rightarrow> pyval \<Rightarrow> bool" where
  "has_key key (PDict d) = (map_of d key \<noteq> None)"
| "has_key key _ = False"

fun field_matches :: "(string \<Rightarrow> bool) \<Rightarrow> string \<Rightarrow> pyval \<Rightarrow> bool" where
  "field_matches re_pattern key i =
     (case getitem i key of Inr (PStr s) \<Rightarrow> re_pattern s | _ \<Rightarrow> False)"

text \<open>A filter of the caller's own: it drops the first entry.\<close>

definition drop_first :: filt where
  "drop_first feed =
     ebind (getitem feed ''entries'') (\<lambda>es.
     ebind (py_iter es) (\<lambda>items.
       setitem feed ''entries'' (PList (tl items))))"

text \<open>The compiled pattern a filter works with, when its construction succeeds.\<close>

definition compiled :: "env \<Rightarrow> re_arg \<Rightarrow> (string \<Rightarrow> bool) option" where
  "compiled env pattern = (case pattern of Source s \<Rightarrow> re_compile env s | Compiled p \<Rightarrow> Some p)"

definition example_feed_a :: pyval where
  "example_feed_a =
     PDict [(''feed'', PDict [(''title'', PStr ''News''), (''link'', PStr ''http://x'')]),
            (''entries'', PList [example_entry_a]),
            (''status'', PInt 200)]"

section \<open>Vocabulary of the claims about OR\<close>

text \<open>
  The link and the publication date of an entry, and the entries that have them as the
  data model wants them: a link that can be a member of a set, a publication date
  that is a datetime.
\<close>

definition link_of :: "pyval \<Rightarrow> pyval" where
  "link_of i = (case getitem i ''link'' of Inr l \<Rightarrow> l | Inl e \<Rightarrow> PNone)"

definition pubdate_of :: "pyval \<Rightarrow> int" where
  "pubdate_of i = (case getitem i ''pubdate'' of Inr (PDateTime t) \<Rightarrow> t | _ \<Rightarrow> 0)"

definition linked :: "pyval \<Rightarrow> bool" where
  "linked i = (case getitem i ''link'' of Inr l \<Rightarrow> hashable l | Inl e \<Rightarrow> False)"

definition dated :: "pyval \<Rightarrow> bool" where
  "dated i = (case getitem i ''pubdate'' of Inr (PDateTime t) \<Rightarrow> True | _ \<Rightarrow> False)"

text \<open>
  The union of two entry sequences as the specification words it: the first sequence
  followed by the second, without the entries whose link an earlier entry carries,
  sorted by publication date, ascending.
\<close>

fun first_by_link :: "pyval list \<Rightarrow> pyval list" where
  "first_by_link [] = []"
| "first_by_link (x # xs) = x # first_by_link (filter (\<lambda>y. link_of y \<noteq> link_of x) xs)"

definition or_entries :: "pyval list \<Rightarrow> pyval list \<Rightarrow> pyval list" where
  "or_entries e1 e2 = sort_key pubdate_of (first_by_link (e1 @ e2))"

text \<open>The values that have items to assign to: the dictionaries.\<close>

fun is_dict :: "pyval \<Rightarrow> bool" where
  "is_dict (PDict d) = True"
| "is_dict (PFPDict d) = True"
| "is_dict _ = False"

definition example_feed_ab :: pyval where
  "example_feed_ab =
     PDict [(''feed'', PDict [(''title'', PStr ''News''), (''link'', PStr ''http://x'')]),
            (''entries'', PList [example_entry_a, example_entry_b]),
            (''status'', PInt 200)]"

text \<open>A feed with two different entries under one link.\<close>

definition example_first :: pyval where
  "example_first =
     PDict [(''link'', PStr ''a''), (''title'', PStr ''Go release''), (''pubdate'', PDateTime 1)]"

definition example_second :: pyval where
  "example_second =
     PDict [(''link'', PStr ''a''), (''title'', PStr ''Go again''), (''pubdate'', PDateTime 2)]"

definition example_shared :: "pyval list \<Rightarrow> pyval" where
  "example_shared es = PDict [(''feed'', PDict [(''title'', PStr ''News'')]), (''entries'', PList es)]"

section \<open>Vocabulary of the claims about the pipeline\<close>

text \<open>
  The description the specification asks for, from the metadata the transform has
  left: the description itself when it is truthy, else the title when it is truthy,
  else the link when it is truthy, else the fixed string.
\<close>

definition description_for :: "dict \<Rightarrow> pyval" where
  "description_for m =
     (let description = (case map_of m ''description'' of None \<Rightarrow> PNone | Some d \<Rightarrow> d);
          title = (case map_of m ''title'' of None \<Rightarrow> PNone | Some t \<Rightarrow> t);
          link = (case map_of m ''link'' of None \<Rightarrow> PNone | Some l \<Rightarrow> l)
      in if truthy description then description
         else if truthy title then title
         else if truthy link then link
         else PStr ''Unknown title'')"


text \<open>The small environment with a serializer that writes the description of the feed.\<close>

definition example_writer :: env where
  "example_writer =
     example_env\<lparr>write_string := (\<lambda>out. case rss_description out of
                                             PStr d \<Rightarrow> Some d
                                           | _ \<Rightarrow> None)\<rparr>"

text \<open>A transform of the caller's own that returns a feed whose metadata has no link.\<close>

definition example_unlinked :: filt where
  "example_unlinked f = Inr (example_shared [example_first])"

text \<open>
  The same as a filter with its effect: it returns another feed and leaves the feed it
  was given as it is.
\<close>

definition example_detached :: effect where
  "example_detached f = Inr (example_shared [example_first], f)"

section \<open>Vocabulary of the claims about the builder\<close>

text \<open>
  The filters the builder constructs when every regular expression compiles: the
  title filters followed by the link filters.
\<close>

definition built :: "env \<Rightarrow> re_arg list \<Rightarrow> re_arg list \<Rightarrow> filt list" where
  "built env url_filters title_filters =
     map (\<lambda>p. fil (the (compiled env p)) ''title'') title_filters @
     map (\<lambda>p. fil (the (compiled env p)) ''link'') url_filters"

section \<open>Properties of the normalizer\<close>

lemma ebind_Inr_iff: "ebind m f = Inr y \<longleftrightarrow> (\<exists>x. m = Inr x \<and> f x = Inr y)"
  by (cases m) (simp_all add: ebind_def)

lemma ebind_Inl_iff: "ebind m f = Inl e \<longleftrightarrow> m = Inl e \<or> (\<exists>x. m = Inr x \<and> f x = Inl e)"
  by (cases m) (simp_all add: ebind_def)

lemma ebind_Inr [simp]: "ebind (Inr x) f = f x"
  by (simp add: ebind_def)

lemma ebind_Inl [simp]: "ebind (Inl e) f = Inl e"
  by (simp add: ebind_def)

lemma cast_value_not_fpdict: "\<not> is_fpdict (cast_value v)"
  by (cases v) simp_all

lemma cast_value_id: "\<not> is_fpdict v \<Longrightarrow> cast_value v = v"
  by (cases v) simp_all

lemma cast_values_plain: "plain_dict (PDict (cast_values d))"
  by (induction d) (simp_all add: cast_values_def cast_value_not_fpdict)

lemma cast_values_id: "plain_dict (PDict d) \<Longrightarrow> cast_values d = d"
  by (induction d) (simp_all add: cast_values_def cast_value_id)

lemma cast_entries_plain:
  "cast_entries items acc = Inr nu \<Longrightarrow> list_all plain_dict acc \<Longrightarrow> list_all plain_dict nu"
proof (induction items arbitrary: acc)
  case Nil
  then show ?case by simp
next
  case (Cons i rest)
  from Cons.prems(1) obtain d where d: "to_dict i = Inr d"
    and rest: "cast_entries rest (acc @ [PDict (cast_values d)]) = Inr nu"
    by (auto simp: ebind_Inr_iff)
  have "list_all plain_dict (acc @ [PDict (cast_values d)])"
    using Cons.prems(2) cast_values_plain by simp
  with Cons.IH rest show ?case by blast
qed

lemma cast_entries_id:
  "list_all plain_dict items \<Longrightarrow> cast_entries items acc = Inr (acc @ items)"
proof (induction items arbitrary: acc)
  case Nil
  then show ?case by simp
next
  case (Cons i rest)
  from Cons.prems obtain d where i: "i = PDict d" and pd: "plain_dict (PDict d)"
    by (cases i) auto
  from Cons.prems have "list_all plain_dict rest" by simp
  with Cons.IH have "cast_entries rest (acc @ [i]) = Inr ((acc @ [i]) @ rest)" by blast
  then show ?case using i pd cast_values_id [OF pd] by simp
qed

lemma normalized_cast_id:
  assumes "normalized f"
  shows "cast_feed_to_primitives f = Inr f"
proof -
  from assms obtain d where f: "f = PDict d" by (cases f) auto
  from assms f obtain m where m: "map_of d ''feed'' = Some m" and pm: "plain_dict m"
    by (auto split: option.splits)
  from pm obtain md where md: "m = PDict md" by (cases m) auto
  from assms f m obtain es where es: "map_of d ''entries'' = Some (PList es)"
    and pes: "list_all plain_dict es"
    by (auto split: option.splits pyval.splits)
  have u1: "AList.update ''feed'' (PDict md) d = d"
    using m md by (simp add: update_triv)
  have u2: "AList.update ''entries'' (PList es) d = d"
    using es by (simp add: update_triv)
  show ?thesis
    using f m md pm es u1 u2 cast_entries_id [OF pes, of "[]"]
    by (simp add: cast_feed_to_primitives_def cast_values_id)
qed

lemma cast_normalizes:
  assumes "cast_feed_to_primitives f = Inr g"
  shows "normalized g"
proof -
  from assms obtain d0 m m' es items nu where
        d0: "to_dict f = Inr d0"
    and m: "getitem (PDict d0) ''feed'' = Inr m"
    and m': "to_dict m = Inr m'"
    and es: "getitem (PDict (AList.update ''feed'' (PDict (cast_values m')) d0)) ''entries'' = Inr es"
    and items: "py_iter es = Inr items"
    and nu: "cast_entries items [] = Inr nu"
    and g: "g = PDict (AList.update ''entries'' (PList nu)
                 (AList.update ''feed'' (PDict (cast_values m')) d0))"
    by (auto simp: cast_feed_to_primitives_def ebind_Inr_iff)
  have "list_all plain_dict nu"
    using cast_entries_plain [OF nu] by simp
  then show ?thesis
    using g cast_values_plain [of m'] by (simp add: update_conv')
qed

text \<open>
  Claim C7. Normalization is idempotent: on a feed structure that is already
  normalized (the feed, its metadata and its entries are plain dictionaries with no
  FeedParserDict value) \<open>_cast_feed_to_primitives\<close> returns an equal structure; and
  whatever the normalizer returns is normalized, so that normalizing it again changes
  nothing.
\<close>

theorem cast_feed_to_primitives_idempotent:
  "(normalized f \<longrightarrow> cast_feed_to_primitives f = Inr f) \<and>
   (cast_feed_to_primitives f = Inr g \<longrightarrow> normalized g \<and> cast_feed_to_primitives g = Inr g)"
  using normalized_cast_id cast_normalizes by blast

theorem cast_feed_to_primitives_idempotent_witness:
  "normalized (PDict [(''feed'', PDict [(''title'', PStr ''News'')]),
                      (''entries'', PList [PDict [(''link'', PStr ''a'')]])]) \<and>
   cast_feed_to_primitives
     (PFPDict [(''feed'', PFPDict [(''title'', PStr ''News'')]),
               (''entries'', PList [PFPDict [(''link'', PStr ''a'')]])]) =
     Inr (PDict [(''feed'', PDict [(''title'', PStr ''News'')]),
                 (''entries'', PList [PDict [(''link'', PStr ''a'')]])]) \<and>
   cast_feed_to_primitives
     (PDict [(''feed'', PDict [(''title'', PStr ''News'')]),
             (''entries'', PList [PDict [(''link'', PStr ''a'')]])]) =
     Inr (PDict [(''feed'', PDict [(''title'', PStr ''News'')]),
                 (''entries'', PList [PDict [(''link'', PStr ''a'')]])])"
proof -
  let ?raw = "PFPDict [(''feed'', PFPDict [(''title'', PStr ''News'')]),
                       (''entries'', PList [PFPDict [(''link'', PStr ''a'')]])]"
  let ?norm = "PDict [(''feed'', PDict [(''title'', PStr ''News'')]),
                      (''entries'', PList [PDict [(''link'', PStr ''a'')]])]"
  have n: "normalized ?norm" by simp
  have c: "cast_feed_to_primitives ?raw = Inr ?norm"
    by (simp add: cast_feed_to_primitives_def cast_values_def)
  from cast_feed_to_primitives_idempotent [of ?norm ?norm] n c show ?thesis by blast
qed

section \<open>Properties of fetching\<close>

lemma op_error_simps [simp]:
  "\<not> op_error FeedFetchError" "\<not> op_error (FeedFilterError m)" "\<not> op_error AssertionError"
  "op_error (KeyError k)" "op_error TypeError" "op_error ValueError" "op_error AttributeError"
  "op_error ReError" "op_error LibraryError" "op_error Unmodelled"
  by (simp_all add: op_error_def)

lemma getitem_op_error: "getitem x k = Inl e \<Longrightarrow> op_error e"
  by (cases x) (auto split: option.splits)

lemma setitem_op_error: "setitem x k v = Inl e \<Longrightarrow> op_error e"
  by (cases x) auto

lemma py_get_op_error: "py_get x k = Inl e \<Longrightarrow> op_error e"
  by (cases x) auto

lemma py_pop_op_error: "py_pop x k = Inl e \<Longrightarrow> op_error e"
  by (cases x) (auto split: option.splits)

lemma to_dict_op_error: "to_dict x = Inl e \<Longrightarrow> op_error e"
  by (induction x rule: to_dict.induct) auto

lemma py_iter_op_error: "py_iter x = Inl e \<Longrightarrow> op_error e"
  by (cases x) auto

lemma cast_entries_op_error: "cast_entries items acc = Inl e \<Longrightarrow> op_error e"
  by (induction items arbitrary: acc) (auto simp: ebind_Inl_iff dest: to_dict_op_error)

lemma cast_op_error: "cast_feed_to_primitives f = Inl e \<Longrightarrow> op_error e"
  unfolding cast_feed_to_primitives_def
  by (auto simp: ebind_Inl_iff simp del: getitem.simps setitem.simps
           dest: to_dict_op_error getitem_op_error setitem_op_error py_iter_op_error cast_entries_op_error)

lemma add_pubdates_op_error: "add_pubdates env items = Inl e \<Longrightarrow> op_error e"
  by (induction items)
     (auto simp: ebind_Inl_iff split: if_splits option.splits
           dest: py_get_op_error getitem_op_error setitem_op_error)

lemma status_ok_Inr: "status_ok s = Inr ok \<longleftrightarrow> (\<exists>n. s = PInt n \<and> ok = (200 \<le> n \<and> n < 300))"
  by (cases s) auto

lemma status_ok_op_error: "status_ok s = Inl e \<Longrightarrow> op_error e"
  by (cases s) auto

lemma add_pubdates_dated:
  "add_pubdates env items = Inr items' \<Longrightarrow> list_all plain_dict items \<Longrightarrow>
   list_all has_datetime_pubdate items'"
proof (induction items arbitrary: items')
  case Nil
  then show ?case by simp
next
  case (Cons i rest)
  from Cons.prems(2) obtain d where i: "i = PDict d" by (cases i) auto
  from Cons.prems(1) obtain i' rest' where
        i': "(if \<not> is_datetime (case map_of d ''pubdate'' of None \<Rightarrow> PNone | Some v \<Rightarrow> v)
              then ebind (getitem i ''published_parsed'') (\<lambda>pp.
                     case from_struct env pp of
                       None \<Rightarrow> Inl LibraryError
                     | Some t \<Rightarrow> setitem i ''pubdate'' (PDateTime t))
              else Inr i) = Inr i'"
    and rest': "add_pubdates env rest = Inr rest'"
    and items': "items' = i' # rest'"
    using i by (auto simp: ebind_Inr_iff)
  have "has_datetime_pubdate i'"
  proof (cases "is_datetime (case map_of d ''pubdate'' of None \<Rightarrow> PNone | Some v \<Rightarrow> v)")
    case True
    then obtain t where "map_of d ''pubdate'' = Some (PDateTime t)"
      by (cases "map_of d ''pubdate''"; cases "the (map_of d ''pubdate'')") auto
    with True i' i show ?thesis by auto
  next
    case False
    with i' i show ?thesis
      by (auto simp: ebind_Inr_iff update_conv' split: option.splits)
  qed
  moreover from Cons.IH rest' Cons.prems(2) have "list_all has_datetime_pubdate rest'" by simp
  ultimately show ?case using items' by simp
qed

lemma normalized_entries:
  "normalized g \<Longrightarrow> \<exists>d es. g = PDict d \<and> map_of d ''entries'' = Some (PList es) \<and> list_all plain_dict es"
  by (cases g) (auto split: option.splits pyval.splits)

lemma fetch_success_dated:
  assumes "fst (fetch_and_prepare_feed env url) = Inr g"
  shows "\<exists>d es. g = PDict d \<and> map_of d ''entries'' = Some (PList es) \<and>
                list_all has_datetime_pubdate es"
proof -
  from assms obtain f1 es items items' where
        c: "cast_feed_to_primitives (parse env url) = Inr f1"
    and es: "getitem f1 ''entries'' = Inr es"
    and it: "py_iter es = Inr items"
    and ap: "add_pubdates env items = Inr items'"
    and g: "setitem f1 ''entries'' (PList items') = Inr g"
    by (auto simp: fetch_and_prepare_feed_def Let_def ebind_Inr_iff split: if_splits)
  from normalized_entries [OF cast_normalizes [OF c]] obtain d es0 where
    d: "f1 = PDict d" "map_of d ''entries'' = Some (PList es0)" "list_all plain_dict es0"
    by blast
  with es it have "items = es0" by auto
  with ap d have "list_all has_datetime_pubdate items'"
    using add_pubdates_dated by blast
  with g d show ?thesis by (auto simp: update_conv')
qed

lemma fetch_error_iff:
  "fst (fetch_and_prepare_feed env url) = Inl FeedFetchError \<longleftrightarrow>
     (\<exists>m. getitem (parse env url) ''feed'' = Inr m \<and>
          (\<not> truthy m \<or>
           (\<exists>s. getitem (parse env url) ''status'' = Inr (PInt s) \<and> \<not> (200 \<le> s \<and> s < 300))))"
  (is "?L \<longleftrightarrow> ?R")
proof
  assume ?L
  then show ?R
    by (auto simp: fetch_and_prepare_feed_def Let_def ebind_Inl_iff status_ok_Inr
             split: if_splits
             dest: getitem_op_error setitem_op_error py_iter_op_error cast_op_error
                   add_pubdates_op_error status_ok_op_error)
next
  assume ?R
  then show ?L
    by (auto simp: fetch_and_prepare_feed_def Let_def)
qed


text \<open>
  Claim C4. \<open>fetch_and_prepare_feed\<close> raises FeedFetchError exactly when the
  feed-level metadata of the parsed result is empty or None, or its status code is an
  integer outside 200 to 299 (a parsed result without a status, or one whose metadata
  is missing altogether, raises a lookup failure instead); no other check raises it.
  When it returns, the result is a dictionary whose entries are a list, and each entry
  has a \<open>pubdate\<close> that is a datetime.
\<close>

theorem fetch_and_prepare_feed_validation:
  "(fst (fetch_and_prepare_feed env url) = Inl FeedFetchError \<longleftrightarrow>
      (\<exists>m. getitem (parse env url) ''feed'' = Inr m \<and>
           (\<not> truthy m \<or>
            (\<exists>s. getitem (parse env url) ''status'' = Inr (PInt s) \<and>
                 \<not> (200 \<le> s \<and> s < 300))))) \<and>
   (fst (fetch_and_prepare_feed env url) = Inr g \<longrightarrow>
      (\<exists>d es. g = PDict d \<and> map_of d ''entries'' = Some (PList es) \<and>
               list_all has_datetime_pubdate es))"
  using fetch_error_iff fetch_success_dated by blast

lemma example_fetch:
  "fetch_and_prepare_feed example_env ''http://feed'' = (Inr example_feed, [''http://feed''])"
  by (simp add: fetch_and_prepare_feed_def example_env_def example_parsed_def example_feed_def
        example_entry_a_def example_entry_b_def cast_feed_to_primitives_def cast_values_def)

theorem fetch_and_prepare_feed_validation_witness:
  "fst (fetch_and_prepare_feed example_env ''http://gone'') = Inl FeedFetchError \<and>
   fst (fetch_and_prepare_feed example_env ''http://feed'') = Inr example_feed \<and>
   (\<exists>d es. example_feed = PDict d \<and> map_of d ''entries'' = Some (PList es) \<and>
            list_all has_datetime_pubdate es)"
proof -
  have gone: "\<exists>m. getitem (parse example_env ''http://gone'') ''feed'' = Inr m \<and>
           (\<not> truthy m \<or>
            (\<exists>s. getitem (parse example_env ''http://gone'') ''status'' = Inr (PInt s) \<and>
                 \<not> (200 \<le> s \<and> s < 300)))"
    by (simp add: example_env_def)
  have ok: "fst (fetch_and_prepare_feed example_env ''http://feed'') = Inr example_feed"
    by (simp add: example_fetch)
  from fetch_and_prepare_feed_validation [of example_env "''http://gone''" example_feed] gone
  have 1: "fst (fetch_and_prepare_feed example_env ''http://gone'') = Inl FeedFetchError"
    by blast
  from fetch_and_prepare_feed_validation [of example_env "''http://feed''" example_feed] ok
  have 2: "\<exists>d es. example_feed = PDict d \<and> map_of d ''entries'' = Some (PList es) \<and>
            list_all has_datetime_pubdate es"
    by blast
  from 1 ok 2 show ?thesis by blast
qed

section \<open>Properties of the regular-expression filter and of AND\<close>

lemma fil_loop_Inr:
  "fil_loop re key items acc = Inr nu \<Longrightarrow> nu = acc @ filter (field_matches re key) items"
proof (induction items arbitrary: acc)
  case Nil
  then show ?case by simp
next
  case (Cons i rest)
  from Cons.prems obtain v found where v: "getitem i key = Inr v"
    and f: "re_search re v = Inr found"
    and r: "fil_loop re key rest (if found then acc @ [i] else acc) = Inr nu"
    by (auto simp: ebind_Inr_iff)
  from f obtain s where s: "v = PStr s" "found = re s" by (cases v) auto
  from Cons.IH [OF r] v s show ?case by simp
qed

lemma fil_loop_kept:
  "list_all (field_matches re key) items \<Longrightarrow> fil_loop re key items acc = Inr (acc @ items)"
proof (induction items arbitrary: acc)
  case Nil
  then show ?case by simp
next
  case (Cons i rest)
  from Cons.prems obtain s where "getitem i key = Inr (PStr s)" "re s"
    by (auto split: sum.splits pyval.splits)
  moreover from Cons.prems Cons.IH have "fil_loop re key rest (acc @ [i]) = Inr ((acc @ [i]) @ rest)"
    by simp
  ultimately show ?case by simp
qed

lemma fil_loop_strings:
  "list_all (str_entry key) items \<Longrightarrow> list_all (has_key key) items \<Longrightarrow>
   fil_loop re key items acc = Inr (acc @ filter (field_matches re key) items)"
proof (induction items arbitrary: acc)
  case Nil
  then show ?case by simp
next
  case (Cons i rest)
  from Cons.prems obtain d s where "i = PDict d" "map_of d key = Some (PStr s)"
    by (cases i) (auto split: option.splits pyval.splits)
  with Cons show ?case by simp
qed

lemma fil_loop_missing:
  "list_all (str_entry key) items \<Longrightarrow> \<not> list_all (has_key key) items \<Longrightarrow>
   fil_loop re key items acc = Inl (KeyError key)"
proof (induction items arbitrary: acc)
  case Nil
  then show ?case by simp
next
  case (Cons i rest)
  from Cons.prems(1) obtain d where i: "i = PDict d" by (cases i) auto
  show ?case
  proof (cases "map_of d key")
    case None
    with i show ?thesis by simp
  next
    case (Some v)
    with Cons.prems(1) i obtain s where "v = PStr s" by (cases v) auto
    with Some i Cons show ?thesis by simp
  qed
qed

lemma fil_on_strings:
  assumes "getitem feed ''entries'' = Inr (PList es)" and "list_all (str_entry key) es"
  shows "fil re_pattern key feed =
           (if list_all (has_key key) es
            then setitem feed ''entries'' (PList (filter (field_matches re_pattern key) es))
            else Inl (KeyError key))"
  using assms by (simp add: fil_def fil_loop_strings fil_loop_missing)

lemma getitem_setitem_same:
  "setitem feed k v = Inr feed' \<Longrightarrow> getitem feed' k = Inr v"
  by (cases feed) (auto simp: update_conv')

lemma setitem_setitem_same:
  "setitem feed k v = Inr feed' \<Longrightarrow> setitem feed' k v = Inr feed'"
  by (cases feed) auto

lemma fil_idempotent:
  assumes "fil re key F = Inr G"
  shows "fil re key G = Inr G"
proof -
  from assms obtain es items nu where es: "getitem F ''entries'' = Inr es"
    and it: "py_iter es = Inr items"
    and nu: "fil_loop re key items [] = Inr nu"
    and G: "setitem F ''entries'' (PList nu) = Inr G"
    by (auto simp: fil_def ebind_Inr_iff)
  from fil_loop_Inr [OF nu] have "list_all (field_matches re key) nu"
    by (simp add: list_all_iff)
  then have "fil_loop re key nu [] = Inr nu"
    using fil_loop_kept [of re key nu "[]"] by simp
  with getitem_setitem_same [OF G] setitem_setitem_same [OF G]
  show ?thesis by (simp add: fil_def)
qed

lemma AND_filter_fil_twice: "AND_filter (fil re key) (fil re key) F = fil re key F"
proof (cases "fil re key F")
  case (Inl e)
  then show ?thesis by (simp add: AND_filter_def)
next
  case (Inr G)
  with fil_idempotent [OF Inr] show ?thesis by (simp add: AND_filter_def)
qed

text \<open>
  Claim C5. On a feed whose entries are plain dictionaries with string fields, the
  filter built by \<open>entry_field_re_filter\<close> from a pattern and a key keeps exactly the
  entries in whose field \<open>key\<close> the pattern's search finds a match, in their original
  order, and stores them back in the feed; if some entry lacks the key, the filter
  raises KeyError for that key instead of treating the entry as a non-match.
\<close>

theorem entry_field_re_filter_keeps_matches:
  assumes "compiled env pattern = Some re_pattern"
    and "getitem feed ''entries'' = Inr (PList es)" and "list_all (str_entry key) es"
  shows "\<exists>flt. entry_field_re_filter env pattern key = Inr flt \<and>
           flt feed =
             (if list_all (has_key key) es
              then setitem feed ''entries'' (PList (filter (field_matches re_pattern key) es))
              else Inl (KeyError key))"
proof -
  from assms(1) have "entry_field_re_filter env pattern key = Inr (fil re_pattern key)"
    by (cases pattern) (simp_all add: compiled_def)
  with fil_on_strings [OF assms(2,3)] show ?thesis by simp
qed

lemma example_feed_entries:
  "getitem example_feed ''entries'' = Inr (PList [example_entry_b, example_entry_a])"
  by (simp add: example_feed_def)

theorem entry_field_re_filter_keeps_matches_witness:
  "(\<exists>flt. entry_field_re_filter example_env (Source ''Go'') ''title'' = Inr flt \<and>
          flt example_feed = Inr example_feed_a) \<and>
   (\<exists>flt. entry_field_re_filter example_env (Source ''Go'') ''author'' = Inr flt \<and>
          flt example_feed = Inl (KeyError ''author''))"
proof -
  have c: "compiled example_env (Source ''Go'') = Some (contains ''Go'')"
    by (simp add: compiled_def example_env_def)
  have t: "list_all (str_entry ''title'') [example_entry_b, example_entry_a]"
    by (simp add: example_entry_a_def example_entry_b_def)
  have s: "list_all (str_entry ''author'') [example_entry_b, example_entry_a]"
    by (simp add: example_entry_a_def example_entry_b_def)
  have 1: "\<exists>flt. entry_field_re_filter example_env (Source ''Go'') ''title'' = Inr flt \<and>
          flt example_feed = Inr example_feed_a"
    using entry_field_re_filter_keeps_matches [OF c example_feed_entries t]
    by (simp add: example_entry_a_def example_entry_b_def example_feed_def example_feed_a_def)
  have 2: "\<exists>flt. entry_field_re_filter example_env (Source ''Go'') ''author'' = Inr flt \<and>
          flt example_feed = Inl (KeyError ''author'')"
    using entry_field_re_filter_keeps_matches [OF c example_feed_entries s]
    by (simp add: example_entry_a_def example_entry_b_def)
  from 1 2 show ?thesis by blast
qed

text \<open>
  Claim C6, as stated, fails: a filter is any function on feeds, and one that drops the
  first entry of the feed removes two entries when it is composed with itself.
\<close>

theorem AND_filter_idempotent_counterexample:
  "AND_filter drop_first drop_first example_feed \<noteq> drop_first example_feed"
  by (simp add: AND_filter_def drop_first_def example_feed_def)

text \<open>
  Claim C6, amended. \<open>AND_filter filter1 filter2\<close> applies \<open>filter2\<close> and then
  \<open>filter1\<close> to its result (an exception of \<open>filter2\<close> propagates). For every filter
  built by \<open>entry_field_re_filter\<close>, and for every filter that changes nothing when it
  is applied to its own result, the composition of the filter with itself behaves as
  the filter alone.
\<close>

theorem AND_filter_sequential:
  "AND_filter filter1 filter2 F = ebind (filter2 F) filter1 \<and>
   AND_filter (fil re_pattern key) (fil re_pattern key) F = fil re_pattern key F \<and>
   ((\<forall>G. f F = Inr G \<longrightarrow> f G = Inr G) \<longrightarrow> AND_filter f f F = f F)"
proof -
  have "AND_filter f f F = f F" if "\<forall>G. f F = Inr G \<longrightarrow> f G = Inr G"
    using that by (cases "f F") (simp_all add: AND_filter_def)
  then show ?thesis
    using AND_filter_fil_twice by (simp add: AND_filter_def)
qed

theorem AND_filter_sequential_witness:
  "AND_filter (fil (contains ''e'') ''title'') (fil (contains ''a'') ''link'') example_feed =
     Inr example_feed_a \<and>
   AND_filter (fil (contains ''a'') ''link'') (fil (contains ''a'') ''link'') example_feed =
     Inr example_feed_a"
proof -
  let ?f = "fil (contains ''a'') ''link''"
  have a: "?f example_feed = Inr example_feed_a"
    by (simp add: fil_def example_entry_a_def example_entry_b_def example_feed_def
          example_feed_a_def)
  have idem: "\<forall>G. ?f example_feed = Inr G \<longrightarrow> ?f G = Inr G"
    using fil_idempotent by blast
  have e: "fil (contains ''e'') ''title'' example_feed_a = Inr example_feed_a"
    by (simp add: fil_def example_entry_a_def example_feed_a_def)
  from AND_filter_sequential [of "fil (contains ''e'') ''title''" ?f example_feed
         "contains ''a''" "''link''" ?f] idem a e
  show ?thesis by simp
qed

section \<open>Properties of OR\<close>

lemma linkedD: "linked i \<Longrightarrow> getitem i ''link'' = Inr (link_of i) \<and> hashable (link_of i)"
  by (auto simp: linked_def link_of_def split: sum.splits)

lemma datedD: "dated i \<Longrightarrow> getitem i ''pubdate'' = Inr (PDateTime (pubdate_of i))"
  by (auto simp: dated_def pubdate_of_def split: sum.splits pyval.splits)

lemma filter_notin_insert:
  "filter (\<lambda>j. f j \<notin> insert l S) xs = filter (\<lambda>y. f y \<noteq> l) (filter (\<lambda>j. f j \<notin> S) xs)"
  by (induction xs) auto

lemma dedup_loop_spec:
  "list_all linked items \<Longrightarrow>
   dedup_loop items seen acc =
     Inr (seen \<union> link_of ` set items,
          acc @ first_by_link (filter (\<lambda>i. link_of i \<notin> seen) items))"
proof (induction items arbitrary: seen acc)
  case Nil
  then show ?case by simp
next
  case (Cons i rest)
  from Cons.prems have i: "getitem i ''link'' = Inr (link_of i)" "hashable (link_of i)"
    and rest: "list_all linked rest"
    using linkedD by auto
  show ?case
  proof (cases "link_of i \<in> seen")
    case True
    with i Cons.IH [OF rest, of seen acc] show ?thesis by (auto simp: insert_absorb)
  next
    case False
    have "dedup_loop (i # rest) seen acc = dedup_loop rest (insert (link_of i) seen) (acc @ [i])"
      using i False by simp
    also have "\<dots> = Inr (insert (link_of i) seen \<union> link_of ` set rest,
        (acc @ [i]) @ first_by_link (filter (\<lambda>j. link_of j \<notin> insert (link_of i) seen) rest))"
      by (rule Cons.IH [OF rest])
    also have "\<dots> = Inr (seen \<union> link_of ` set (i # rest),
        acc @ first_by_link (filter (\<lambda>j. link_of j \<notin> seen) (i # rest)))"
      unfolding filter_notin_insert using False by simp
    finally show ?thesis .
  qed
qed

lemma dedup_loop_invariant:
  "dedup_loop items seen acc = Inr (seen', acc') \<Longrightarrow>
   seen = link_of ` set acc \<Longrightarrow> distinct (map link_of acc) \<Longrightarrow>
   seen' = link_of ` set acc' \<and> distinct (map link_of acc')"
proof (induction items arbitrary: seen acc)
  case Nil
  then show ?case by auto
next
  case (Cons i rest)
  from Cons.prems(1) obtain l where l: "getitem i ''link'' = Inr l" and h: "hashable l"
    and r: "(if l \<in> seen then dedup_loop rest seen acc
             else dedup_loop rest (insert l seen) (acc @ [i])) = Inr (seen', acc')"
    by (auto simp: ebind_Inr_iff split: if_splits)
  from l have li: "link_of i = l" by (simp add: link_of_def)
  show ?case
  proof (cases "l \<in> seen")
    case True
    with r Cons.IH [of seen acc] Cons.prems(2,3) show ?thesis by simp
  next
    case False
    with r have "dedup_loop rest (insert l seen) (acc @ [i]) = Inr (seen', acc')" by simp
    moreover have "insert l seen = link_of ` set (acc @ [i])"
      using Cons.prems(2) li by auto
    moreover have "distinct (map link_of (acc @ [i]))"
      using Cons.prems(2,3) li False by auto
    ultimately show ?thesis using Cons.IH by blast
  qed
qed

lemma dedup_loop_count:
  assumes "dedup_loop items {} [] = Inr (seen, entries)"
  shows "length entries = card seen"
proof -
  from dedup_loop_invariant [OF assms] have "seen = link_of ` set entries"
    and "distinct (map link_of entries)" by simp_all
  then show ?thesis by (metis distinct_card length_map set_map)
qed

lemma py_add_op_error: "py_add a b = Inl e \<Longrightarrow> op_error e"
  by (induction a b rule: py_add.induct) auto

lemma py_lt_op_error: "py_lt a b = Inl e \<Longrightarrow> op_error e"
  by (induction a b rule: py_lt.induct) auto

lemma dedup_loop_op_error: "dedup_loop items seen acc = Inl e \<Longrightarrow> op_error e"
  by (induction items arbitrary: seen acc)
     (auto simp: ebind_Inl_iff split: if_splits dest: getitem_op_error)

lemma pubdate_keys_op_error: "pubdate_keys es = Inl e \<Longrightarrow> op_error e"
  by (induction es arbitrary: e) (auto simp: ebind_Inl_iff dest: getitem_op_error)

lemma insort_py_op_error: "insort_py x ys = Inl e \<Longrightarrow> op_error e"
  by (induction ys arbitrary: e) (auto simp: ebind_Inl_iff split: if_splits dest: py_lt_op_error)

lemma sort_py_op_error: "sort_py xs = Inl e \<Longrightarrow> op_error e"
  by (induction xs arbitrary: e) (auto simp: ebind_Inl_iff dest: insort_py_op_error)

lemma sort_by_pubdate_op_error: "sort_by_pubdate es = Inl e \<Longrightarrow> op_error e"
  by (auto simp: sort_by_pubdate_def ebind_Inl_iff dest: pubdate_keys_op_error sort_py_op_error)

lemma pubdate_keys_snd: "pubdate_keys es = Inr keyed \<Longrightarrow> map snd keyed = es"
  by (induction es arbitrary: keyed) (auto simp: ebind_Inr_iff)

lemma insort_py_elems:
  "insort_py x ys = Inr r \<Longrightarrow> length r = Suc (length ys) \<and> set r = insert x (set ys)"
  by (induction ys arbitrary: r) (auto simp: ebind_Inr_iff split: if_splits)

lemma sort_py_elems: "sort_py xs = Inr r \<Longrightarrow> length r = length xs \<and> set r = set xs"
proof (induction xs arbitrary: r)
  case Nil
  then show ?case by simp
next
  case (Cons x xs)
  then obtain s where s: "sort_py xs = Inr s" and r: "insort_py x s = Inr r"
    by (auto simp: ebind_Inr_iff)
  from Cons.IH [OF s] insort_py_elems [OF r] show ?case by simp
qed

lemma sort_by_pubdate_elems:
  assumes "sort_by_pubdate es = Inr r"
  shows "length r = length es \<and> set r = set es"
proof -
  from assms obtain keyed s where k: "pubdate_keys es = Inr keyed"
    and s: "sort_py keyed = Inr s" and r: "r = map snd s"
    by (auto simp: sort_by_pubdate_def ebind_Inr_iff)
  from sort_py_elems [OF s] pubdate_keys_snd [OF k] r show ?thesis
    by (metis length_map set_map)
qed

lemma orfilter_merge_error:
  assumes "orfilter_merge G1 G2 F = Inl e"
  shows "op_error e"
proof (rule ccontr)
  assume no: "\<not> op_error e"
  have c: "length entries = card seen"
    if "dedup_loop items {} [] = Inr (seen, es)" "sort_by_pubdate es = Inr entries"
    for items seen es entries
    using dedup_loop_count [OF that(1)] sort_by_pubdate_elems [OF that(2)] by simp
  from assms no show False
    unfolding orfilter_merge_def
    by (auto simp: ebind_Inl_iff c split: if_splits prod.splits
             dest: getitem_op_error py_add_op_error py_iter_op_error dedup_loop_op_error
                   sort_by_pubdate_op_error setitem_op_error
             simp del: getitem.simps setitem.simps)
qed

lemma orfilter_merge_no_assertion: "orfilter_merge G1 G2 F \<noteq> Inl AssertionError"
  using orfilter_merge_error [of G1 G2 F AssertionError] by auto


lemma pubdate_keys_dated:
  "list_all dated es \<Longrightarrow> pubdate_keys es = Inr (map (\<lambda>i. (PDateTime (pubdate_of i), i)) es)"
  by (induction es) (simp_all add: datedD)

lemma insort_py_dated:
  "insort_py (PDateTime (pubdate_of x), x) (map (\<lambda>i. (PDateTime (pubdate_of i), i)) ys) =
     Inr (map (\<lambda>i. (PDateTime (pubdate_of i), i)) (insort_key pubdate_of x ys))"
  by (induction ys) (auto simp: not_less)

lemma sort_py_dated:
  "sort_py (map (\<lambda>i. (PDateTime (pubdate_of i), i)) es) =
     Inr (map (\<lambda>i. (PDateTime (pubdate_of i), i)) (sort_key pubdate_of es))"
  by (induction es) (simp_all add: insort_py_dated)

lemma sort_by_pubdate_dated:
  "list_all dated es \<Longrightarrow> sort_by_pubdate es = Inr (sort_key pubdate_of es)"
  by (simp add: sort_by_pubdate_def pubdate_keys_dated sort_py_dated comp_def)

lemma first_by_link_subset: "set (first_by_link xs) \<subseteq> set xs"
proof (induction xs rule: first_by_link.induct)
  case 1
  then show ?case by simp
next
  case (2 x xs)
  then show ?case by auto
qed

lemma first_by_link_links: "link_of ` set (first_by_link xs) = link_of ` set xs"
proof (induction xs rule: first_by_link.induct)
  case 1
  then show ?case by simp
next
  case (2 x xs)
  then show ?case by auto
qed

lemma first_by_link_distinct: "distinct (map link_of (first_by_link xs))"
proof (induction xs rule: first_by_link.induct)
  case 1
  then show ?case by simp
next
  case (2 x xs)
  have "link_of x \<notin> link_of ` set (first_by_link (filter (\<lambda>y. link_of y \<noteq> link_of x) xs))"
    unfolding first_by_link_links by auto
  with 2 show ?case by simp
qed

lemma find_filter_implied:
  "(\<And>y. P y \<Longrightarrow> Q y) \<Longrightarrow> List.find P (filter Q xs) = List.find P xs"
  by (induction xs) auto

lemma first_by_link_find:
  "x \<in> set (first_by_link xs) \<longleftrightarrow> List.find (\<lambda>y. link_of y = link_of x) xs = Some x"
proof (induction xs rule: first_by_link.induct)
  case 1
  then show ?case by simp
next
  case (2 z zs)
  let ?rest = "filter (\<lambda>y. link_of y \<noteq> link_of z) zs"
  show ?case
  proof (cases "link_of z = link_of x")
    case True
    have r: "List.find (\<lambda>y. link_of y = link_of x) (z # zs) = Some z"
      using True by simp
    have n: "x \<notin> set (first_by_link ?rest)"
    proof
      assume "x \<in> set (first_by_link ?rest)"
      with first_by_link_subset [of ?rest] have "x \<in> set ?rest" by blast
      then have "link_of x \<noteq> link_of z" by simp
      with True show False by simp
    qed
    have "x \<in> set (first_by_link (z # zs)) \<longleftrightarrow> x = z"
      using n by simp
    also have "\<dots> \<longleftrightarrow> Some z = Some x" by blast
    finally show ?thesis unfolding r .
  next
    case False
    then have ne: "x \<noteq> z" by blast
    have eq: "List.find (\<lambda>y. link_of y = link_of x) ?rest =
              List.find (\<lambda>y. link_of y = link_of x) zs"
    proof (rule find_filter_implied)
      fix y assume "link_of y = link_of x"
      with False show "link_of y \<noteq> link_of z" by simp
    qed
    have "x \<in> set (first_by_link (z # zs)) \<longleftrightarrow> x \<in> set (first_by_link ?rest)"
      using ne by simp
    also have "\<dots> \<longleftrightarrow> List.find (\<lambda>y. link_of y = link_of x) ?rest = Some x"
      by (rule "2.IH")
    also have "\<dots> \<longleftrightarrow> List.find (\<lambda>y. link_of y = link_of x) zs = Some x"
      by (simp only: eq)
    also have "\<dots> \<longleftrightarrow> List.find (\<lambda>y. link_of y = link_of x) (z # zs) = Some x"
      using False by simp
    finally show ?thesis .
  qed
qed

lemma setitem_is_dict:
  assumes "is_dict F"
  shows "\<exists>G. setitem F k v = Inr G \<and> getitem G k = Inr v \<and>
             (\<forall>k'. k' \<noteq> k \<longrightarrow> getitem G k' = getitem F k')"
  using assms by (cases F) (auto simp: update_conv')

lemma orfilter_merge_spec:
  assumes e1: "getitem G1 ''entries'' = Inr (PList e1)"
    and e2: "getitem G2 ''entries'' = Inr (PList e2)"
    and l: "list_all linked (e1 @ e2)" and d: "list_all dated (e1 @ e2)"
  shows "orfilter_merge G1 G2 F = setitem F ''entries'' (PList (or_entries e1 e2))"
proof -
  let ?kept = "first_by_link (e1 @ e2)"
  have loop: "dedup_loop (e1 @ e2) {} [] = Inr (link_of ` set (e1 @ e2), ?kept)"
    using dedup_loop_spec [OF l, of "{}" "[]"] by simp
  have "list_all dated ?kept"
    using d first_by_link_subset [of "e1 @ e2"] unfolding list_all_iff by blast
  then have srt: "sort_by_pubdate ?kept = Inr (or_entries e1 e2)"
    by (simp add: sort_by_pubdate_dated or_entries_def)
  have cnt: "length (or_entries e1 e2) = card (link_of ` set (e1 @ e2))"
    using dedup_loop_count [OF loop] by (simp add: or_entries_def)
  show ?thesis
    unfolding orfilter_merge_def
    by (simp add: e1 e2 loop srt cnt del: getitem.simps setitem.simps)
qed

lemma OR_filter_spec:
  assumes "filter1 F = Inr (G1, C)" and "filter2 F = Inr (G2, F2)"
    and "getitem G1 ''entries'' = Inr (PList e1)" and "getitem G2 ''entries'' = Inr (PList e2)"
    and "list_all linked (e1 @ e2)" and "list_all dated (e1 @ e2)"
  shows "OR_filter filter1 filter2 F = setitem F2 ''entries'' (PList (or_entries e1 e2))"
  using assms by (simp add: OR_filter_def orfilter_merge_spec del: setitem.simps)

lemma orfilter_merge_count:
  assumes "orfilter_merge G1 G2 F = Inr G"
  shows "\<exists>es. getitem G ''entries'' = Inr (PList es) \<and> distinct (map link_of es) \<and>
              length es = card (link_of ` set es)"
proof -
  from assms obtain items seen acc es where
        loop: "dedup_loop items {} [] = Inr (seen, acc)"
    and srt: "sort_by_pubdate acc = Inr es"
    and G: "setitem F ''entries'' (PList es) = Inr G"
    unfolding orfilter_merge_def
    by (auto simp: ebind_Inr_iff split: if_splits prod.splits simp del: getitem.simps setitem.simps)
  from dedup_loop_invariant [OF loop] have seen: "seen = link_of ` set acc" by simp
  from sort_by_pubdate_elems [OF srt] have el: "length es = length acc" "set es = set acc"
    by simp_all
  with dedup_loop_count [OF loop] seen have cnt: "length es = card (link_of ` set es)" by simp
  then have "distinct (map link_of es)"
    by (metis card_distinct length_map set_map)
  with cnt getitem_setitem_same [OF G] show ?thesis by blast
qed

lemma or_entries_set: "set (or_entries e1 e2) = set (first_by_link (e1 @ e2))"
  by (simp add: or_entries_def del: set_append)

lemma or_entries_length: "length (or_entries e1 e2) = card (link_of ` set (e1 @ e2))"
proof -
  have "length (or_entries e1 e2) = card (link_of ` set (first_by_link (e1 @ e2)))"
    using first_by_link_distinct [of "e1 @ e2"]
    by (metis distinct_card length_map length_sort or_entries_def set_map)
  then show ?thesis by (simp only: first_by_link_links)
qed

text \<open>
  Claim C1. \<open>filter1\<close> is evaluated on the feed \<open>F\<close> as it was (the deep copy) and
  \<open>filter2\<close> on \<open>F\<close> itself. When both return, and the entries of the feeds they
  return have links and datetime publication dates, \<open>OR_filter filter1 filter2\<close>
  stores in \<open>F\<close>, as \<open>filter2\<close> has left it, the union of the specification: the
  entries \<open>filter1\<close> kept followed by those of \<open>filter2\<close>, first occurrence of each
  link only, sorted ascending by publication date. It returns \<open>F\<close>: the entries of
  the result are that union, and every other field of the result is the one of \<open>F\<close>,
  also when \<open>filter2\<close> has returned another object.
\<close>

theorem OR_filter_union:
  assumes "filter1 F = Inr (G1, C)" and "filter2 F = Inr (G2, F2)"
    and "getitem G1 ''entries'' = Inr (PList e1)" and "getitem G2 ''entries'' = Inr (PList e2)"
    and "list_all linked (e1 @ e2)" and "list_all dated (e1 @ e2)"
  shows "OR_filter filter1 filter2 F = setitem F2 ''entries'' (PList (or_entries e1 e2)) \<and>
         sorted (map pubdate_of (or_entries e1 e2)) \<and>
         (is_dict F2 \<longrightarrow>
            (\<exists>G. OR_filter filter1 filter2 F = Inr G \<and>
                 getitem G ''entries'' = Inr (PList (or_entries e1 e2)) \<and>
                 (\<forall>k. k \<noteq> ''entries'' \<longrightarrow> getitem G k = getitem F2 k)))"
proof (intro conjI impI)
  show m: "OR_filter filter1 filter2 F = setitem F2 ''entries'' (PList (or_entries e1 e2))"
    using assms by (rule OR_filter_spec)
  show "sorted (map pubdate_of (or_entries e1 e2))"
    by (simp add: or_entries_def)
  assume "is_dict F2"
  from setitem_is_dict [OF this, of "''entries''" "PList (or_entries e1 e2)"] m
  show "\<exists>G. OR_filter filter1 filter2 F = Inr G \<and>
            getitem G ''entries'' = Inr (PList (or_entries e1 e2)) \<and>
            (\<forall>k. k \<noteq> ''entries'' \<longrightarrow> getitem G k = getitem F2 k)"
    by (simp del: getitem.simps setitem.simps)
qed

lemma example_fil_e:
  "in_place (fil (contains ''e'') ''title'') example_feed = Inr (example_feed, example_feed)"
  by (simp add: in_place_def fil_def example_entry_a_def example_entry_b_def example_feed_def)

lemma example_fil_a:
  "in_place (fil (contains ''a'') ''link'') example_feed = Inr (example_feed_a, example_feed_a)"
  by (simp add: in_place_def fil_def example_entry_a_def example_entry_b_def example_feed_def
        example_feed_a_def)

lemma example_first_entries:
  "getitem (example_shared [example_first]) ''entries'' = Inr (PList [example_first])"
  by (simp add: example_shared_def)

theorem OR_filter_union_witness:
  "OR_filter (in_place (fil (contains ''e'') ''title'')) (in_place (fil (contains ''a'') ''link''))
     example_feed = Inr example_feed_ab \<and>
   or_entries [example_entry_b, example_entry_a] [example_entry_a] =
     [example_entry_a, example_entry_b] \<and>
   OR_filter (in_place (fil (contains ''e'') ''title'')) example_detached example_feed =
     Inr example_feed_ab"
proof -
  have a: "getitem example_feed_a ''entries'' = Inr (PList [example_entry_a])"
    by (simp add: example_feed_a_def)
  have l: "list_all linked ([example_entry_b, example_entry_a] @ [example_entry_a])"
    by (simp add: linked_def example_entry_a_def example_entry_b_def)
  have d: "list_all dated ([example_entry_b, example_entry_a] @ [example_entry_a])"
    by (simp add: dated_def example_entry_a_def example_entry_b_def)
  have u: "or_entries [example_entry_b, example_entry_a] [example_entry_a] =
             [example_entry_a, example_entry_b]"
    by (simp add: or_entries_def link_of_def pubdate_of_def example_entry_a_def
          example_entry_b_def)
  have s: "setitem example_feed_a ''entries'' (PList [example_entry_a, example_entry_b]) =
             Inr example_feed_ab"
    by (simp add: example_feed_a_def example_feed_ab_def)
  from OR_filter_union
         [of "in_place (fil (contains ''e'') ''title'')" example_feed example_feed example_feed
             "in_place (fil (contains ''a'') ''link'')" example_feed_a example_feed_a
             "[example_entry_b, example_entry_a]" "[example_entry_a]"]
       example_fil_e example_fil_a example_feed_entries a l d
  have 1: "OR_filter (in_place (fil (contains ''e'') ''title''))
             (in_place (fil (contains ''a'') ''link'')) example_feed =
           setitem example_feed_a ''entries''
             (PList (or_entries [example_entry_b, example_entry_a] [example_entry_a]))"
    by blast
  have t: "example_detached example_feed = Inr (example_shared [example_first], example_feed)"
    by (simp add: example_detached_def)
  have l': "list_all linked ([example_entry_b, example_entry_a] @ [example_first])"
    by (simp add: linked_def example_entry_a_def example_entry_b_def example_first_def)
  have d': "list_all dated ([example_entry_b, example_entry_a] @ [example_first])"
    by (simp add: dated_def example_entry_a_def example_entry_b_def example_first_def)
  have u': "or_entries [example_entry_b, example_entry_a] [example_first] =
             [example_entry_a, example_entry_b]"
    by (simp add: or_entries_def link_of_def pubdate_of_def example_entry_a_def
          example_entry_b_def example_first_def)
  have s': "setitem example_feed ''entries'' (PList [example_entry_a, example_entry_b]) =
             Inr example_feed_ab"
    by (simp add: example_feed_def example_feed_ab_def)
  from OR_filter_union
         [of "in_place (fil (contains ''e'') ''title'')" example_feed example_feed example_feed
             example_detached "example_shared [example_first]" example_feed
             "[example_entry_b, example_entry_a]" "[example_first]"]
       example_fil_e t example_feed_entries example_first_entries l' d'
  have 2: "OR_filter (in_place (fil (contains ''e'') ''title'')) example_detached example_feed =
           setitem example_feed ''entries''
             (PList (or_entries [example_entry_b, example_entry_a] [example_first]))"
    by blast
  from 1 2 u u' s s' show ?thesis by simp
qed

text \<open>
  Claim C2, as stated, fails in its second half: two different entries under one link,
  each kept by one of the filters, do not trigger the assertion. The second entry is
  dropped and the feed is returned.
\<close>

theorem OR_filter_shared_link_counterexample:
  "example_first \<noteq> example_second \<and> link_of example_first = link_of example_second \<and>
   fil (contains ''release'') ''title'' (example_shared [example_first, example_second]) =
     Inr (example_shared [example_first]) \<and>
   fil (contains ''again'') ''title'' (example_shared [example_first, example_second]) =
     Inr (example_shared [example_second]) \<and>
   OR_filter (in_place (fil (contains ''release'') ''title''))
     (in_place (fil (contains ''again'') ''title''))
     (example_shared [example_first, example_second]) = Inr (example_shared [example_first])"
  by (simp add: OR_filter_def in_place_def orfilter_merge_def sort_by_pubdate_def fil_def
        link_of_def example_first_def example_second_def example_shared_def)

text \<open>
  Claim C2, amended. Whenever \<open>OR_filter\<close> returns a feed, its entries carry pairwise
  different links, so their number is the number of distinct links among them. Entries
  that share a link are no error: when both filters return, the feed given is still a
  dictionary, and the entries of the feeds returned have links and datetime
  publication dates, \<open>OR_filter\<close> returns a feed with one entry for each link of the
  two filtered sets, and an entry is among them exactly when it is the first entry
  with its link in the concatenation of the first filtered set and the second. The
  other entries with that link are dropped.
\<close>

theorem OR_filter_one_entry_per_link:
  "(OR_filter filter1 filter2 F = Inr G \<longrightarrow>
      (\<exists>es. getitem G ''entries'' = Inr (PList es) \<and> distinct (map link_of es) \<and>
            length es = card (link_of ` set es))) \<and>
   (filter1 F = Inr (G1, C) \<and> filter2 F = Inr (G2, F2) \<and> is_dict F2 \<and>
    getitem G1 ''entries'' = Inr (PList e1) \<and> getitem G2 ''entries'' = Inr (PList e2) \<and>
    list_all linked (e1 @ e2) \<and> list_all dated (e1 @ e2) \<longrightarrow>
      (\<exists>G' es. OR_filter filter1 filter2 F = Inr G' \<and>
               getitem G' ''entries'' = Inr (PList es) \<and>
               link_of ` set es = link_of ` set (e1 @ e2) \<and>
               length es = card (link_of ` set (e1 @ e2)) \<and>
               (\<forall>x. x \<in> set es \<longleftrightarrow>
                    List.find (\<lambda>y. link_of y = link_of x) (e1 @ e2) = Some x)))"
proof (intro conjI impI)
  assume "OR_filter filter1 filter2 F = Inr G"
  then obtain H1 H2 H where "orfilter_merge H1 H2 H = Inr G"
    by (auto simp: OR_filter_def ebind_Inr_iff split: prod.splits)
  then show "\<exists>es. getitem G ''entries'' = Inr (PList es) \<and> distinct (map link_of es) \<and>
            length es = card (link_of ` set es)"
    by (rule orfilter_merge_count)
next
  assume h: "filter1 F = Inr (G1, C) \<and> filter2 F = Inr (G2, F2) \<and> is_dict F2 \<and>
    getitem G1 ''entries'' = Inr (PList e1) \<and> getitem G2 ''entries'' = Inr (PList e2) \<and>
    list_all linked (e1 @ e2) \<and> list_all dated (e1 @ e2)"
  then have "filter1 F = Inr (G1, C)" and "filter2 F = Inr (G2, F2)"
    and "getitem G1 ''entries'' = Inr (PList e1)" and "getitem G2 ''entries'' = Inr (PList e2)"
    and "list_all linked (e1 @ e2)" and "list_all dated (e1 @ e2)"
    by blast+
  then have m: "OR_filter filter1 filter2 F = setitem F2 ''entries'' (PList (or_entries e1 e2))"
    by (rule OR_filter_spec)
  from h have "is_dict F2" by blast
  from setitem_is_dict [OF this, of "''entries''" "PList (or_entries e1 e2)"]
  obtain G' where G': "setitem F2 ''entries'' (PList (or_entries e1 e2)) = Inr G'"
    and ent: "getitem G' ''entries'' = Inr (PList (or_entries e1 e2))"
    by blast
  have ret: "OR_filter filter1 filter2 F = Inr G'"
    using m G' by simp
  have links: "link_of ` set (or_entries e1 e2) = link_of ` set (e1 @ e2)"
    by (simp only: or_entries_set first_by_link_links)
  have len: "length (or_entries e1 e2) = card (link_of ` set (e1 @ e2))"
    by (rule or_entries_length)
  have first: "\<forall>x. x \<in> set (or_entries e1 e2) \<longleftrightarrow>
                 List.find (\<lambda>y. link_of y = link_of x) (e1 @ e2) = Some x"
    unfolding or_entries_set first_by_link_find by (rule allI, rule refl)
  show "\<exists>G' es. OR_filter filter1 filter2 F = Inr G' \<and>
               getitem G' ''entries'' = Inr (PList es) \<and>
               link_of ` set es = link_of ` set (e1 @ e2) \<and>
               length es = card (link_of ` set (e1 @ e2)) \<and>
               (\<forall>x. x \<in> set es \<longleftrightarrow>
                    List.find (\<lambda>y. link_of y = link_of x) (e1 @ e2) = Some x)"
    by (rule exI [of _ G'], rule exI [of _ "or_entries e1 e2"]) (intro conjI; fact)
qed

lemma example_shared_release:
  "in_place (fil (contains ''release'') ''title'') (example_shared [example_first, example_second]) =
     Inr (example_shared [example_first], example_shared [example_first])"
  by (simp add: in_place_def fil_def example_first_def example_second_def example_shared_def)

lemma example_shared_again:
  "in_place (fil (contains ''again'') ''title'') (example_shared [example_first, example_second]) =
     Inr (example_shared [example_second], example_shared [example_second])"
  by (simp add: in_place_def fil_def example_first_def example_second_def example_shared_def)

theorem OR_filter_one_entry_per_link_witness:
  "\<exists>G' es. OR_filter (in_place (fil (contains ''release'') ''title''))
              (in_place (fil (contains ''again'') ''title''))
              (example_shared [example_first, example_second]) = Inr G' \<and>
           getitem G' ''entries'' = Inr (PList es) \<and>
           length es = 1 \<and> example_first \<in> set es \<and> example_second \<notin> set es"
proof -
  have h: "in_place (fil (contains ''release'') ''title'')
             (example_shared [example_first, example_second]) =
             Inr (example_shared [example_first], example_shared [example_first]) \<and>
           in_place (fil (contains ''again'') ''title'')
             (example_shared [example_first, example_second]) =
             Inr (example_shared [example_second], example_shared [example_second]) \<and>
           is_dict (example_shared [example_second]) \<and>
           getitem (example_shared [example_first]) ''entries'' = Inr (PList [example_first]) \<and>
           getitem (example_shared [example_second]) ''entries'' = Inr (PList [example_second]) \<and>
           list_all linked ([example_first] @ [example_second]) \<and>
           list_all dated ([example_first] @ [example_second])"
    using example_shared_release example_shared_again
    by (simp add: example_shared_def linked_def dated_def example_first_def example_second_def)
  have c: "card (link_of ` set ([example_first] @ [example_second])) = 1"
    by (simp add: link_of_def example_first_def example_second_def)
  have f1: "List.find (\<lambda>y. link_of y = link_of example_first) ([example_first] @ [example_second]) =
              Some example_first"
    by simp
  have f2: "List.find (\<lambda>y. link_of y = link_of example_second) ([example_first] @ [example_second]) \<noteq>
              Some example_second"
    by (simp add: link_of_def example_first_def example_second_def)
  from OR_filter_one_entry_per_link
         [of "in_place (fil (contains ''release'') ''title'')"
             "in_place (fil (contains ''again'') ''title'')"
             "example_shared [example_first, example_second]" "example_shared [example_first]"
             "example_shared [example_first]" "example_shared [example_first]"
             "example_shared [example_second]" "example_shared [example_second]"
             "[example_first]" "[example_second]"] h
  obtain G' es where
       "OR_filter (in_place (fil (contains ''release'') ''title''))
              (in_place (fil (contains ''again'') ''title''))
              (example_shared [example_first, example_second]) = Inr G'"
   and "getitem G' ''entries'' = Inr (PList es)"
   and "length es = card (link_of ` set ([example_first] @ [example_second]))"
   and "\<forall>x. x \<in> set es \<longleftrightarrow>
          List.find (\<lambda>y. link_of y = link_of x) ([example_first] @ [example_second]) = Some x"
    by blast
  with c f1 f2 show ?thesis by metis
qed

text \<open>
  Claim C9. The assertion of \<open>orfilter\<close> always holds. After the deduplication loop
  the number of accumulated entries is the size of the set of links seen; sorting
  keeps that number; so the merge never raises AssertionError, and \<open>OR_filter\<close>
  raises it only if one of the two filters did.
\<close>

theorem OR_filter_assertion_holds:
  "(dedup_loop items {} [] = Inr (seen_urls, entries) \<longrightarrow> length entries = card seen_urls) \<and>
   (sort_by_pubdate entries = Inr sorted_entries \<longrightarrow> length sorted_entries = length entries) \<and>
   orfilter_merge filtered1 filtered2 F' \<noteq> Inl AssertionError \<and>
   (filter1 F \<noteq> Inl AssertionError \<and> filter2 F \<noteq> Inl AssertionError \<longrightarrow>
      OR_filter filter1 filter2 F \<noteq> Inl AssertionError)"
  using dedup_loop_count sort_by_pubdate_elems orfilter_merge_no_assertion
  by (auto simp: OR_filter_def ebind_Inl_iff split: prod.splits)

theorem OR_filter_assertion_holds_witness:
  "dedup_loop [example_first, example_second] {} [] = Inr ({PStr ''a''}, [example_first]) \<and>
   length [example_first] = card {PStr ''a''} \<and>
   OR_filter (in_place (fil (contains ''release'') ''title''))
     (in_place (fil (contains ''again'') ''title''))
     (example_shared [example_first, example_second]) \<noteq> Inl AssertionError"
proof -
  have d: "dedup_loop [example_first, example_second] {} [] = Inr ({PStr ''a''}, [example_first])"
    by (simp add: example_first_def example_second_def)
  have f: "in_place (fil (contains ''release'') ''title'')
             (example_shared [example_first, example_second]) \<noteq> Inl AssertionError"
          "in_place (fil (contains ''again'') ''title'')
             (example_shared [example_first, example_second]) \<noteq> Inl AssertionError"
    by (simp_all add: example_shared_release example_shared_again)
  from OR_filter_assertion_holds
         [of "[example_first, example_second]" "{PStr ''a''}" "[example_first]" "[example_first]"
             example_first example_second example_first
             "in_place (fil (contains ''release'') ''title'')"
             "example_shared [example_first, example_second]"
             "in_place (fil (contains ''again'') ''title'')"] d f
  show ?thesis by blast
qed

section \<open>Properties of the pipeline\<close>

lemma truthy_description_for: "truthy (description_for m)"
  by (simp add: description_for_def Let_def)

lemma backfill_plain:
  assumes "map_of m ''title'' = Some t" and "map_of m ''link'' = Some l"
  shows "\<exists>m'. backfill_description (PDict m) = Inr (PDict m') \<and>
              map_of m' = (map_of m)(''description'' \<mapsto> description_for m)"
proof (cases "truthy (case map_of m ''description'' of None \<Rightarrow> PNone | Some d \<Rightarrow> d)")
  case True
  then obtain d where d: "map_of m ''description'' = Some d" "truthy d"
    by (cases "map_of m ''description''") auto
  then have "description_for m = d" by (simp add: description_for_def)
  with d True show ?thesis
    by (auto simp: backfill_description_def fun_eq_iff)
next
  case False
  with assms show ?thesis
    by (auto simp: backfill_description_def description_for_def update_conv')
qed

lemma feed_header_plain:
  assumes f: "getitem f ''feed'' = Inr (PDict m)"
    and t: "map_of m ''title'' = Some t" and l: "map_of m ''link'' = Some l"
  shows "\<exists>f' m'. feed_header f = Inr (t, l, description_for m, f') \<and>
           getitem f' ''feed'' = Inr (PDict m') \<and>
           map_of m' = (map_of m)(''title'' := None, ''link'' := None, ''description'' := None)"
proof -
  from backfill_plain [OF t l] obtain m1 where
    m1: "backfill_description (PDict m) = Inr (PDict m1)"
        "map_of m1 = (map_of m)(''description'' \<mapsto> description_for m)"
    by blast
  let ?m4 = "AList.delete ''description'' (AList.delete ''link'' (AList.delete ''title'' m1))"
  from f obtain f' where f': "setitem f ''feed'' (PDict ?m4) = Inr f'"
    by (cases f) auto
  have "feed_header f = Inr (t, l, description_for m, f')"
    using f m1 t l f'
    by (simp add: feed_header_def delete_conv' del: getitem.simps setitem.simps)
  moreover have "map_of ?m4 = (map_of m)(''title'' := None, ''link'' := None, ''description'' := None)"
    using m1 by (auto simp: delete_conv' fun_eq_iff)
  ultimately show ?thesis using getitem_setitem_same [OF f'] by blast
qed

lemma backfill_truthy:
  assumes "backfill_description m = Inr m'"
  shows "\<exists>d. py_get m' ''description'' = Inr d \<and> truthy d"
  using assms
  by (cases m)
     (auto simp: backfill_description_def ebind_Inr_iff update_conv'
           split: if_splits option.splits)

lemma py_pop_other:
  "py_pop m k = Inr (v, m') \<Longrightarrow> k \<noteq> k' \<Longrightarrow> py_get m' k' = py_get m k'"
  by (cases m) (auto split: option.splits simp: delete_conv')

lemma py_pop_value:
  "py_pop m k = Inr (v, m') \<Longrightarrow> py_get m k = Inr v"
  by (cases m) (auto split: option.splits)

lemma feed_header_truthy:
  assumes "feed_header f = Inr (title, link, description, f')"
  shows "truthy description"
proof -
  from assms obtain m m1 m2 m3 m4 where
        b: "backfill_description m = Inr m1"
    and p1: "py_pop m1 ''title'' = Inr (title, m2)"
    and p2: "py_pop m2 ''link'' = Inr (link, m3)"
    and p3: "py_pop m3 ''description'' = Inr (description, m4)"
    by (auto simp: feed_header_def ebind_Inr_iff split: prod.splits)
  from backfill_truthy [OF b] obtain d where d: "py_get m1 ''description'' = Inr d" "truthy d"
    by blast
  from py_pop_other [OF p1, of "''description''"] py_pop_other [OF p2, of "''description''"]
       py_pop_value [OF p3] d
  show ?thesis by simp
qed

lemma backfill_missing:
  assumes "map_of m ''title'' = None \<or> map_of m ''link'' = None"
  shows "(\<exists>m'. backfill_description (PDict m) = Inr (PDict m') \<and>
               map_of m' ''title'' = map_of m ''title'' \<and> map_of m' ''link'' = map_of m ''link'') \<or>
         backfill_description (PDict m) =
           Inl (KeyError (if map_of m ''title'' = None then ''title'' else ''link''))"
  using assms
  by (auto simp: backfill_description_def update_conv' split: option.splits)

lemma feed_header_missing:
  assumes f: "getitem f ''feed'' = Inr (PDict m)"
    and miss: "map_of m ''title'' = None \<or> map_of m ''link'' = None"
  shows "feed_header f = Inl (KeyError (if map_of m ''title'' = None then ''title'' else ''link''))"
proof -
  from backfill_missing [OF miss] show ?thesis
  proof
    assume "\<exists>m'. backfill_description (PDict m) = Inr (PDict m') \<and>
               map_of m' ''title'' = map_of m ''title'' \<and> map_of m' ''link'' = map_of m ''link''"
    then obtain m' where m': "backfill_description (PDict m) = Inr (PDict m')"
      "map_of m' ''title'' = map_of m ''title''" "map_of m' ''link'' = map_of m ''link''"
      by blast
    show ?thesis
    proof (cases "map_of m ''title''")
      case None
      with f m' show ?thesis by (simp add: feed_header_def del: getitem.simps)
    next
      case (Some t)
      with miss have "map_of m ''link'' = None" by simp
      with Some f m' show ?thesis
        by (simp add: feed_header_def delete_conv' del: getitem.simps)
    qed
  next
    assume "backfill_description (PDict m) =
           Inl (KeyError (if map_of m ''title'' = None then ''title'' else ''link''))"
    with f show ?thesis by (simp add: feed_header_def del: getitem.simps)
  qed
qed

lemma add_items_header:
  "add_items env items out = Inr out' \<Longrightarrow>
   rss_title out' = rss_title out \<and> rss_link out' = rss_link out \<and>
   rss_description out' = rss_description out \<and> rss_extra out' = rss_extra out"
proof (induction items arbitrary: out)
  case Nil
  then show ?case by simp
next
  case (Cons i rest)
  then show ?case by (fastforce simp: ebind_Inr_iff split: if_splits)
qed

lemma emit_feed_serialized:
  assumes "emit_feed env f = Inr pretty"
  shows "\<exists>title link description f' out feedstr.
           feed_header f = Inr (title, link, description, f') \<and>
           rss_title out = title \<and> rss_link out = link \<and> rss_description out = description \<and>
           write_string env out = Some feedstr \<and> prettify env feedstr = Some pretty"
proof -
  from assms obtain title link description f' extra items out0 out where
        h: "feed_header f = Inr (title, link, description, f')"
    and n: "new_feed env title link description extra = Inr out0"
    and a: "add_items env items out0 = Inr out"
    and w: "(case write_string env out of
               None \<Rightarrow> Inl LibraryError
             | Some feedstr \<Rightarrow>
                 (case prettify env feedstr of
                    None \<Rightarrow> Inl LibraryError
                  | Some pretty \<Rightarrow> Inr pretty)) = Inr pretty"
    by (auto simp: emit_feed_def ebind_Inr_iff split: prod.splits simp del: getitem.simps)
  from w obtain feedstr where "write_string env out = Some feedstr"
    "prettify env feedstr = Some pretty"
    by (auto split: option.splits)
  moreover from n have "rss_title out0 = title" "rss_link out0 = link"
    "rss_description out0 = description"
    by (auto simp: new_feed_def Let_def split: if_splits)
  ultimately show ?thesis using h add_items_header [OF a] by auto
qed


lemma filter_feed_Inr:
  assumes "fst (filter_feed env url transform_func) = Inr pretty"
  shows "\<exists>f0 f. fst (fetch_and_prepare_feed env url) = Inr f0 \<and> transform_func f0 = Inr f \<and>
                emit_feed env f = Inr pretty"
proof -
  obtain r fetched where r: "fetch_and_prepare_feed env url = (r, fetched)"
    by (cases "fetch_and_prepare_feed env url")
  with assms have "ebind r (\<lambda>f. ebind (transform_func f) (\<lambda>f. emit_feed env f)) = Inr pretty"
    by (simp add: filter_feed_def)
  with r show ?thesis by (auto simp: ebind_Inr_iff)
qed

text \<open>
  Claim C8. After the transform, when the feed-level metadata holds a title and a
  link, \<open>filter_feed\<close> takes from it the title, the link and the description of the
  specification: the metadata's own description when it is truthy, else the title if
  truthy, else the link if truthy, else "Unknown title"; and the feed the serializer
  is asked to write carries these three. That description is truthy. Whatever the
  metadata, a run of \<open>filter_feed\<close> that returns a document has fetched the feed,
  applied the transform, produced the header and asked the serializer to write a feed
  with the title, the link and the description of that header, a truthy one.
\<close>

theorem filter_feed_description_backfilled:
  "(getitem f ''feed'' = Inr (PDict m) \<and> map_of m ''title'' = Some t \<and>
    map_of m ''link'' = Some l \<longrightarrow>
      (\<exists>f'. feed_header f = Inr (t, l, description_for m, f')) \<and>
      (emit_feed env f = Inr pretty \<longrightarrow>
         (\<exists>out feedstr. rss_title out = t \<and> rss_link out = l \<and>
                        rss_description out = description_for m \<and>
                        write_string env out = Some feedstr \<and>
                        prettify env feedstr = Some pretty))) \<and>
   truthy (description_for m) \<and>
   (feed_header f = Inr (title, link, description, f') \<longrightarrow> truthy description) \<and>
   (emit_feed env f = Inr pretty \<longrightarrow>
      (\<exists>title link description f' out feedstr.
          feed_header f = Inr (title, link, description, f') \<and>
          rss_title out = title \<and> rss_link out = link \<and> rss_description out = description \<and>
          truthy (rss_description out) \<and>
          write_string env out = Some feedstr \<and> prettify env feedstr = Some pretty)) \<and>
   (fst (filter_feed env url transform_func) = Inr pretty \<longrightarrow>
      (\<exists>f0 g title link description g' out feedstr.
          fst (fetch_and_prepare_feed env url) = Inr f0 \<and> transform_func f0 = Inr g \<and>
          feed_header g = Inr (title, link, description, g') \<and>
          rss_title out = title \<and> rss_link out = link \<and> rss_description out = description \<and>
          truthy (rss_description out) \<and>
          write_string env out = Some feedstr \<and> prettify env feedstr = Some pretty))"
proof -
  have general: "\<exists>title link description f' out feedstr.
          feed_header f = Inr (title, link, description, f') \<and>
          rss_title out = title \<and> rss_link out = link \<and> rss_description out = description \<and>
          truthy (rss_description out) \<and>
          write_string env out = Some feedstr \<and> prettify env feedstr = Some pretty"
    if "emit_feed env f = Inr pretty" for f
  proof -
    from emit_feed_serialized [OF that] obtain title link description f' out feedstr where
      h: "feed_header f = Inr (title, link, description, f')"
      and o: "rss_title out = title" "rss_link out = link" "rss_description out = description"
      and w: "write_string env out = Some feedstr" "prettify env feedstr = Some pretty"
      by blast
    from feed_header_truthy [OF h] o have "truthy (rss_description out)" by simp
    with h o w show ?thesis by blast
  qed
  have plain: "(\<exists>f'. feed_header f = Inr (t, l, description_for m, f')) \<and>
      (emit_feed env f = Inr pretty \<longrightarrow>
         (\<exists>out feedstr. rss_title out = t \<and> rss_link out = l \<and>
                        rss_description out = description_for m \<and>
                        write_string env out = Some feedstr \<and>
                        prettify env feedstr = Some pretty))"
    if "getitem f ''feed'' = Inr (PDict m) \<and> map_of m ''title'' = Some t \<and>
        map_of m ''link'' = Some l"
  proof (intro conjI impI)
    from that feed_header_plain [of f m t l]
    obtain f' where h: "feed_header f = Inr (t, l, description_for m, f')" by blast
    then show "\<exists>f'. feed_header f = Inr (t, l, description_for m, f')" by blast
    assume "emit_feed env f = Inr pretty"
    from emit_feed_serialized [OF this] obtain title link description g out feedstr where
      h': "feed_header f = Inr (title, link, description, g)"
      and o: "rss_title out = title" "rss_link out = link" "rss_description out = description"
      and w: "write_string env out = Some feedstr" "prettify env feedstr = Some pretty"
      by blast
    from h h' have "title = t" "link = l" "description = description_for m" by simp_all
    with o w show "\<exists>out feedstr. rss_title out = t \<and> rss_link out = l \<and>
                        rss_description out = description_for m \<and>
                        write_string env out = Some feedstr \<and>
                        prettify env feedstr = Some pretty"
      by blast
  qed
  have run: "\<exists>f0 g title link description g' out feedstr.
          fst (fetch_and_prepare_feed env url) = Inr f0 \<and> transform_func f0 = Inr g \<and>
          feed_header g = Inr (title, link, description, g') \<and>
          rss_title out = title \<and> rss_link out = link \<and> rss_description out = description \<and>
          truthy (rss_description out) \<and>
          write_string env out = Some feedstr \<and> prettify env feedstr = Some pretty"
    if "fst (filter_feed env url transform_func) = Inr pretty"
  proof -
    from filter_feed_Inr [OF that] obtain f0 g where
      f: "fst (fetch_and_prepare_feed env url) = Inr f0" "transform_func f0 = Inr g"
      and e: "emit_feed env g = Inr pretty"
      by blast
    from general [OF e] f show ?thesis by blast
  qed
  show ?thesis
  proof (intro conjI impI)
    assume "getitem f ''feed'' = Inr (PDict m) \<and> map_of m ''title'' = Some t \<and>
            map_of m ''link'' = Some l"
    from plain [OF this]
    show "\<exists>f'. feed_header f = Inr (t, l, description_for m, f')"
      and "emit_feed env f = Inr pretty \<Longrightarrow>
         \<exists>out feedstr. rss_title out = t \<and> rss_link out = l \<and>
                        rss_description out = description_for m \<and>
                        write_string env out = Some feedstr \<and>
                        prettify env feedstr = Some pretty"
      by blast+
  next
    show "truthy (description_for m)" by (rule truthy_description_for)
  next
    assume "feed_header f = Inr (title, link, description, f')"
    then show "truthy description" by (rule feed_header_truthy)
  next
    assume "emit_feed env f = Inr pretty"
    then show "\<exists>title link description f' out feedstr.
          feed_header f = Inr (title, link, description, f') \<and>
          rss_title out = title \<and> rss_link out = link \<and> rss_description out = description \<and>
          truthy (rss_description out) \<and>
          write_string env out = Some feedstr \<and> prettify env feedstr = Some pretty"
      by (rule general)
  next
    assume "fst (filter_feed env url transform_func) = Inr pretty"
    then show "\<exists>f0 g title link description g' out feedstr.
          fst (fetch_and_prepare_feed env url) = Inr f0 \<and> transform_func f0 = Inr g \<and>
          feed_header g = Inr (title, link, description, g') \<and>
          rss_title out = title \<and> rss_link out = link \<and> rss_description out = description \<and>
          truthy (rss_description out) \<and>
          write_string env out = Some feedstr \<and> prettify env feedstr = Some pretty"
      by (rule run)
  qed
qed

lemma example_writer_emit: "emit_feed example_writer example_feed_a = Inr ''News''"
  by (simp add: emit_feed_def feed_header_def backfill_description_def item_fields_def
        new_feed_def example_feed_a_def example_entry_a_def example_writer_def example_env_def)

theorem filter_feed_description_backfilled_witness:
  "description_for [(''title'', PStr ''News''), (''link'', PStr ''http://x'')] = PStr ''News'' \<and>
   description_for [(''title'', PStr []), (''link'', PStr [])] = PStr ''Unknown title'' \<and>
   (\<exists>f'. feed_header example_feed_a =
            Inr (PStr ''News'', PStr ''http://x'', PStr ''News'', f')) \<and>
   emit_feed example_writer example_feed_a = Inr ''News'' \<and>
   (\<exists>out feedstr. rss_title out = PStr ''News'' \<and> rss_link out = PStr ''http://x'' \<and>
                  rss_description out = PStr ''News'' \<and>
                  write_string example_writer out = Some feedstr \<and>
                  prettify example_writer feedstr = Some ''News'')"
proof -
  have m: "getitem example_feed_a ''feed'' =
             Inr (PDict [(''title'', PStr ''News''), (''link'', PStr ''http://x'')]) \<and>
           map_of [(''title'', PStr ''News''), (''link'', PStr ''http://x'')] ''title'' =
             Some (PStr ''News'') \<and>
           map_of [(''title'', PStr ''News''), (''link'', PStr ''http://x'')] ''link'' =
             Some (PStr ''http://x'')"
    by (simp add: example_feed_a_def)
  have d: "description_for [(''title'', PStr ''News''), (''link'', PStr ''http://x'')] = PStr ''News''"
    by (simp add: description_for_def)
  have u: "description_for [(''title'', PStr []), (''link'', PStr [])] = PStr ''Unknown title''"
    by (simp add: description_for_def)
  from filter_feed_description_backfilled
         [of example_feed_a "[(''title'', PStr ''News''), (''link'', PStr ''http://x'')]"
             "PStr ''News''" "PStr ''http://x''" example_writer "''News''"] m example_writer_emit
  have "(\<exists>f'. feed_header example_feed_a =
            Inr (PStr ''News'', PStr ''http://x'',
                 description_for [(''title'', PStr ''News''), (''link'', PStr ''http://x'')], f')) \<and>
        (\<exists>out feedstr. rss_title out = PStr ''News'' \<and> rss_link out = PStr ''http://x'' \<and>
                  rss_description out =
                    description_for [(''title'', PStr ''News''), (''link'', PStr ''http://x'')] \<and>
                  write_string example_writer out = Some feedstr \<and>
                  prettify example_writer feedstr = Some ''News'')"
    by blast
  with d u example_writer_emit show ?thesis by simp
qed

text \<open>
  Claim C10. \<open>filter_feed\<close> reads and removes the title and the link of the
  feed-level metadata whatever the description is: when the header is produced, they
  are the metadata's title and link and the metadata left has neither. When the
  metadata of the transformed feed lacks the title or the link, the KeyError of that
  key (the title's, when both are missing) leaves \<open>filter_feed\<close> as it is; it is
  neither a FeedFetchError nor a FeedFilterError.
\<close>

theorem filter_feed_missing_title_or_link:
  assumes "getitem f ''feed'' = Inr (PDict m)"
  shows "(map_of m ''title'' = None \<or> map_of m ''link'' = None \<longrightarrow>
            feed_header f =
              Inl (KeyError (if map_of m ''title'' = None then ''title'' else ''link'')) \<and>
            emit_feed env f =
              Inl (KeyError (if map_of m ''title'' = None then ''title'' else ''link'')) \<and>
            (fst (fetch_and_prepare_feed env url) = Inr f0 \<and> transform_func f0 = Inr f \<longrightarrow>
               fst (filter_feed env url transform_func) =
                 Inl (KeyError (if map_of m ''title'' = None then ''title'' else ''link'')))) \<and>
         (feed_header f = Inr (title, link, description, f') \<longrightarrow>
            map_of m ''title'' = Some title \<and> map_of m ''link'' = Some link \<and>
            (\<exists>m'. getitem f' ''feed'' = Inr (PDict m') \<and>
                  map_of m' ''title'' = None \<and> map_of m' ''link'' = None))"
proof (intro conjI impI)
  assume miss: "map_of m ''title'' = None \<or> map_of m ''link'' = None"
  let ?e = "KeyError (if map_of m ''title'' = None then ''title'' else ''link'')"
  show h: "feed_header f = Inl ?e"
    by (rule feed_header_missing [OF assms miss])
  then show e: "emit_feed env f = Inl ?e"
    by (simp add: emit_feed_def)
  assume "fst (fetch_and_prepare_feed env url) = Inr f0 \<and> transform_func f0 = Inr f"
  with e show "fst (filter_feed env url transform_func) = Inl ?e"
    by (cases "fetch_and_prepare_feed env url") (simp add: filter_feed_def)
next
  assume h: "feed_header f = Inr (title, link, description, f')"
  have both: "map_of m ''title'' \<noteq> None \<and> map_of m ''link'' \<noteq> None"
  proof (rule ccontr)
    assume "\<not> (map_of m ''title'' \<noteq> None \<and> map_of m ''link'' \<noteq> None)"
    then have "map_of m ''title'' = None \<or> map_of m ''link'' = None" by blast
    from feed_header_missing [OF assms this] h show False by simp
  qed
  then obtain t l where tl: "map_of m ''title'' = Some t" "map_of m ''link'' = Some l"
    by blast
  from feed_header_plain [OF assms tl] h obtain m' where
    "t = title" "l = link" "getitem f' ''feed'' = Inr (PDict m')"
    "map_of m' = (map_of m)(''title'' := None, ''link'' := None, ''description'' := None)"
    by auto
  with tl show "map_of m ''title'' = Some title" "map_of m ''link'' = Some link"
    "\<exists>m'. getitem f' ''feed'' = Inr (PDict m') \<and>
          map_of m' ''title'' = None \<and> map_of m' ''link'' = None"
    by auto
qed

theorem filter_feed_missing_title_or_link_witness:
  "getitem (example_shared [example_first]) ''feed'' = Inr (PDict [(''title'', PStr ''News'')]) \<and>
   feed_header (example_shared [example_first]) = Inl (KeyError ''link'') \<and>
   fst (filter_feed example_env ''http://feed'' example_unlinked) = Inl (KeyError ''link'')"
proof -
  have m: "getitem (example_shared [example_first]) ''feed'' = Inr (PDict [(''title'', PStr ''News'')])"
    by (simp add: example_shared_def)
  have t: "fst (fetch_and_prepare_feed example_env ''http://feed'') = Inr example_feed \<and>
           example_unlinked example_feed = Inr (example_shared [example_first])"
    by (simp add: example_fetch example_unlinked_def)
  from filter_feed_missing_title_or_link
         [OF m, of example_env "''http://feed''" example_feed example_unlinked] t m
  show ?thesis by simp
qed

section \<open>Properties of the builder\<close>

lemma re_search_op_error: "re_search re v = Inl e \<Longrightarrow> op_error e"
  by (cases v) auto

lemma fil_loop_op_error: "fil_loop re key items acc = Inl e \<Longrightarrow> op_error e"
  by (induction items arbitrary: acc)
     (auto simp: ebind_Inl_iff dest: getitem_op_error re_search_op_error)

lemma fil_op_error: "fil re key F = Inl e \<Longrightarrow> op_error e"
  unfolding fil_def
  by (auto simp: ebind_Inl_iff simp del: getitem.simps setitem.simps
           dest: getitem_op_error py_iter_op_error fil_loop_op_error setitem_op_error)

lemma AND_filter_op_error:
  assumes "\<And>F e. f1 F = Inl e \<Longrightarrow> op_error e" and "\<And>F e. f2 F = Inl e \<Longrightarrow> op_error e"
    and "AND_filter f1 f2 F = Inl e"
  shows "op_error e"
  using assms by (auto simp: AND_filter_def ebind_Inl_iff)

lemma OR_filter_op_error:
  assumes "\<And>F e. f1 F = Inl e \<Longrightarrow> op_error e" and "\<And>F e. f2 F = Inl e \<Longrightarrow> op_error e"
    and "OR_filter f1 f2 F = Inl e"
  shows "op_error e"
  using assms
  by (auto simp: OR_filter_def ebind_Inl_iff split: prod.splits dest: orfilter_merge_error)

lemma in_place_op_error:
  assumes "\<And>F e. f F = Inl e \<Longrightarrow> op_error e" and "in_place f F = Inl e"
  shows "op_error e"
  using assms by (auto simp: in_place_def ebind_Inl_iff)

lemma backfill_op_error: "backfill_description m = Inl e \<Longrightarrow> op_error e"
  unfolding backfill_description_def
  by (auto simp: ebind_Inl_iff simp del: getitem.simps setitem.simps py_get.simps
           split: if_splits
           dest: getitem_op_error setitem_op_error py_get_op_error)

lemma feed_header_op_error: "feed_header f = Inl e \<Longrightarrow> op_error e"
  unfolding feed_header_def
  by (auto simp: ebind_Inl_iff simp del: getitem.simps setitem.simps py_pop.simps
           split: prod.splits
           dest: getitem_op_error setitem_op_error py_pop_op_error backfill_op_error)

lemma py_kwargs_op_error: "py_kwargs x = Inl e \<Longrightarrow> op_error e"
  by (cases x) auto

lemma item_fields_op_error: "item_fields i = Inl e \<Longrightarrow> op_error e"
  by (auto simp: item_fields_def ebind_Inl_iff dest: py_kwargs_op_error)

lemma add_items_op_error: "add_items env items out = Inl e \<Longrightarrow> op_error e"
  by (induction items arbitrary: out)
     (auto simp: ebind_Inl_iff split: if_splits dest: item_fields_op_error)

lemma new_feed_op_error: "new_feed env title link description extra = Inl e \<Longrightarrow> op_error e"
  by (auto simp: new_feed_def Let_def split: if_splits)

lemma emit_feed_op_error: "emit_feed env f = Inl e \<Longrightarrow> op_error e"
  unfolding emit_feed_def
  by (auto simp: ebind_Inl_iff simp del: getitem.simps
           split: prod.splits option.splits
           dest: getitem_op_error feed_header_op_error py_kwargs_op_error py_iter_op_error
                 add_items_op_error new_feed_op_error)

lemma fetch_errors:
  "fst (fetch_and_prepare_feed env url) = Inl e \<Longrightarrow> e = FeedFetchError \<or> op_error e"
  by (auto simp: fetch_and_prepare_feed_def Let_def ebind_Inl_iff
           split: if_splits simp del: getitem.simps setitem.simps
           dest: getitem_op_error setitem_op_error py_iter_op_error cast_op_error
                 add_pubdates_op_error status_ok_op_error)

lemma fetch_log: "snd (fetch_and_prepare_feed env url) = [url]"
  by (simp add: fetch_and_prepare_feed_def Let_def)

lemma filter_feed_log: "snd (filter_feed env url t) = [url]"
  using fetch_log [of env url]
  by (cases "fetch_and_prepare_feed env url") (simp add: filter_feed_def)

lemma filter_feed_errors:
  assumes "\<And>F e. t F = Inl e \<Longrightarrow> op_error e"
    and "fst (filter_feed env url t) = Inl e"
  shows "e = FeedFetchError \<or> op_error e"
proof -
  obtain r fetched where r: "fetch_and_prepare_feed env url = (r, fetched)"
    by (cases "fetch_and_prepare_feed env url")
  with assms(2) have "ebind r (\<lambda>f. ebind (t f) (\<lambda>f. emit_feed env f)) = Inl e"
    by (simp add: filter_feed_def)
  then consider "r = Inl e" | f where "t f = Inl e" | f where "emit_feed env f = Inl e"
    by (auto simp: ebind_Inl_iff)
  then show ?thesis
  proof cases
    case 1
    with r fetch_errors [of env url e] show ?thesis by simp
  next
    case 2
    with assms(1) show ?thesis by blast
  next
    case 3
    with emit_feed_op_error show ?thesis by blast
  qed
qed

lemma filter_feed_no_filter_error:
  assumes "\<And>F e. t F = Inl e \<Longrightarrow> op_error e"
  shows "fst (filter_feed env url t) \<noteq> Inl (FeedFilterError msg)"
  using filter_feed_errors [where t = t and env = env and url = url and e = "FeedFilterError msg"]
        assms by auto

lemma construct_filters:
  "list_all (\<lambda>p. compiled env p \<noteq> None) ps \<Longrightarrow>
   map_err (\<lambda>p. entry_field_re_filter env p key) ps =
     Inr (map (\<lambda>p. fil (the (compiled env p)) key) ps)"
proof (induction ps)
  case Nil
  then show ?case by simp
next
  case (Cons p ps)
  then have "entry_field_re_filter env p key = Inr (fil (the (compiled env p)) key)"
    by (cases p) (auto simp: compiled_def)
  with Cons show ?case by simp
qed

lemma construct_fails:
  "\<not> list_all (\<lambda>p. compiled env p \<noteq> None) ps \<Longrightarrow>
   map_err (\<lambda>p. entry_field_re_filter env p key) ps = Inl ReError"
proof (induction ps)
  case Nil
  then show ?case by simp
next
  case (Cons p ps)
  show ?case
  proof (cases "compiled env p")
    case None
    then show ?thesis by (cases p) (auto simp: compiled_def)
  next
    case (Some re)
    then have "entry_field_re_filter env p key = Inr (fil re key)"
      by (cases p) (auto simp: compiled_def)
    with Some Cons show ?thesis by simp
  qed
qed

lemma built_op_error: "f \<in> set (built env us ts) \<Longrightarrow> f F = Inl e \<Longrightarrow> op_error e"
  by (auto simp: built_def dest: fil_op_error)

lemma builtin_main_compiled:
  assumes "list_all (\<lambda>p. compiled env p \<noteq> None) (title_filters @ url_filters)"
  shows "builtin_main env feed url_filters title_filters operation =
     (let both_filters = built env url_filters title_filters in
      if operation \<notin> set [''OR'', ''AND'']
      then (Inl (FeedFilterError
                  (''Operation can only be AND or OR: '' @ [CHR 0x27] @ operation @ [CHR 0x27])), [])
      else if length both_filters = 0
      then (Inl (FeedFilterError ''No filters provided!''), [])
      else if length both_filters = 1
      then filter_feed env feed (both_filters ! 0)
      else if length both_filters = 2
      then (if operation = ''OR''
            then filter_feed env feed
                   (OR_filter (in_place (both_filters ! 0)) (in_place (both_filters ! 1)))
            else filter_feed env feed (AND_filter (both_filters ! 0) (both_filters ! 1)))
      else (Inl (FeedFilterError ''Too many filters given; use Regex to re-use some?''), []))"
proof -
  from assms have t: "map_err (in_title_filter env) title_filters =
      Inr (map (\<lambda>p. fil (the (compiled env p)) ''title'') title_filters)"
    and u: "map_err (in_url_filter env) url_filters =
      Inr (map (\<lambda>p. fil (the (compiled env p)) ''link'') url_filters)"
    using construct_filters [of env title_filters "''title''"]
          construct_filters [of env url_filters "''link''"]
    unfolding in_title_filter_def [abs_def] in_url_filter_def [abs_def] by simp_all
  show ?thesis
    unfolding builtin_main_def t u built_def by simp
qed

lemma builtin_main_outcome:
  assumes "list_all (\<lambda>p. compiled env p \<noteq> None) (title_filters @ url_filters)"
  shows "(\<exists>msg. fst (builtin_main env feed url_filters title_filters operation) =
                  Inl (FeedFilterError msg)) \<longleftrightarrow>
         (length title_filters + length url_filters = 0 \<or>
          2 < length title_filters + length url_filters \<or>
          operation \<notin> {''AND'', ''OR''})"
    and "snd (builtin_main env feed url_filters title_filters operation) =
           (if length title_filters + length url_filters = 0 \<or>
               2 < length title_filters + length url_filters \<or>
               operation \<notin> {''AND'', ''OR''}
            then [] else [feed])"
proof -
  define both where "both = built env url_filters title_filters"
  define n where "n = length title_filters + length url_filters"
  define r where "r = builtin_main env feed url_filters title_filters operation"
  have len: "length both = n"
    by (simp add: built_def both_def n_def)
  have r: "r =
     (if operation \<notin> {''AND'', ''OR''}
      then (Inl (FeedFilterError
                  (''Operation can only be AND or OR: '' @ [CHR 0x27] @ operation @ [CHR 0x27])), [])
      else if n = 0
      then (Inl (FeedFilterError ''No filters provided!''), [])
      else if n = 1
      then filter_feed env feed (both ! 0)
      else if n = 2
      then (if operation = ''OR''
            then filter_feed env feed (OR_filter (in_place (both ! 0)) (in_place (both ! 1)))
            else filter_feed env feed (AND_filter (both ! 0) (both ! 1)))
      else (Inl (FeedFilterError ''Too many filters given; use Regex to re-use some?''), []))"
    unfolding r_def builtin_main_compiled [OF assms] Let_def both_def [symmetric] len
    by auto
  have mem: "both ! i \<in> set (built env url_filters title_filters)" if "i < n" for i
    using that len nth_mem [of i both] by (simp add: both_def)
  have one: "op_error e" if "0 < n" "(both ! 0) F = Inl e" for F e
    using built_op_error [OF mem [OF that(1)] that(2)] .
  have two: "op_error e" if "1 < n" "(both ! 1) F = Inl e" for F e
    using built_op_error [OF mem [OF that(1)] that(2)] .
  have nfe: "fst (filter_feed env feed (both ! 0)) \<noteq> Inl (FeedFilterError msg)"
    if "n = 1" for msg
    using filter_feed_no_filter_error [of "both ! 0"] one that by simp
  have por: "fst (filter_feed env feed (OR_filter (in_place (both ! 0)) (in_place (both ! 1)))) \<noteq>
               Inl (FeedFilterError msg)" if "n = 2" for msg
  proof -
    have "\<And>F e. in_place (both ! 0) F = Inl e \<Longrightarrow> op_error e"
      and "\<And>F e. in_place (both ! 1) F = Inl e \<Longrightarrow> op_error e"
      using in_place_op_error [of "both ! 0"] in_place_op_error [of "both ! 1"] one two \<open>n = 2\<close>
      by simp_all
    then have "\<And>F e. OR_filter (in_place (both ! 0)) (in_place (both ! 1)) F = Inl e \<Longrightarrow> op_error e"
      using OR_filter_op_error [of "in_place (both ! 0)" "in_place (both ! 1)"] by blast
    then show ?thesis by (rule filter_feed_no_filter_error)
  qed
  have pand: "fst (filter_feed env feed (AND_filter (both ! 0) (both ! 1))) \<noteq>
               Inl (FeedFilterError msg)" if "n = 2" for msg
  proof -
    have "\<And>F e. AND_filter (both ! 0) (both ! 1) F = Inl e \<Longrightarrow> op_error e"
      using AND_filter_op_error [of "both ! 0" "both ! 1"] one two \<open>n = 2\<close> by simp
    then show ?thesis by (rule filter_feed_no_filter_error)
  qed
  consider (bad) "operation \<notin> {''AND'', ''OR''}"
    | (none) "operation \<in> {''AND'', ''OR''}" "n = 0"
    | (single) "operation \<in> {''AND'', ''OR''}" "n = 1"
    | (pair) "operation \<in> {''AND'', ''OR''}" "n = 2"
    | (many) "operation \<in> {''AND'', ''OR''}" "2 < n"
    by linarith
  then have "((\<exists>msg. fst r = Inl (FeedFilterError msg)) \<longleftrightarrow>
                (n = 0 \<or> 2 < n \<or> operation \<notin> {''AND'', ''OR''})) \<and>
             snd r = (if n = 0 \<or> 2 < n \<or> operation \<notin> {''AND'', ''OR''} then [] else [feed])"
  proof cases
    case bad
    then show ?thesis unfolding r by simp
  next
    case none
    then show ?thesis unfolding r by auto
  next
    case single
    then show ?thesis unfolding r using nfe by (auto simp: filter_feed_log)
  next
    case pair
    then show ?thesis unfolding r using por pand by (auto simp: filter_feed_log)
  next
    case many
    then show ?thesis unfolding r by auto
  qed
  then show "(\<exists>msg. fst (builtin_main env feed url_filters title_filters operation) =
                  Inl (FeedFilterError msg)) \<longleftrightarrow>
         (length title_filters + length url_filters = 0 \<or>
          2 < length title_filters + length url_filters \<or>
          operation \<notin> {''AND'', ''OR''})"
    and "snd (builtin_main env feed url_filters title_filters operation) =
           (if length title_filters + length url_filters = 0 \<or>
               2 < length title_filters + length url_filters \<or>
               operation \<notin> {''AND'', ''OR''}
            then [] else [feed])"
    unfolding r_def n_def by blast+
qed

lemma builtin_main_invalid_regex:
  assumes "\<not> list_all (\<lambda>p. compiled env p \<noteq> None) (title_filters @ url_filters)"
  shows "builtin_main env feed url_filters title_filters operation = (Inl ReError, [])"
proof (cases "list_all (\<lambda>p. compiled env p \<noteq> None) title_filters")
  case False
  from construct_fails [OF this, of "''title''"] show ?thesis
    unfolding builtin_main_def in_title_filter_def [abs_def] by simp
next
  case True
  with assms have "\<not> list_all (\<lambda>p. compiled env p \<noteq> None) url_filters" by simp
  from construct_fails [OF this, of "''link''"] construct_filters [OF True, of "''title''"]
  show ?thesis
    unfolding builtin_main_def in_title_filter_def [abs_def] in_url_filter_def [abs_def] by simp
qed

text \<open>
  Claim C3, as stated, fails: the filters are built before the operation is looked at,
  so with an operation that is neither AND nor OR and a regular expression that does
  not compile, \<open>builtin_main\<close> raises \<^verbatim>\<open>re.error\<close>, not FeedFilterError.
\<close>

theorem builtin_main_invalid_regex_counterexample:
  "fst (builtin_main example_env ''http://feed'' [] [Source ''(''] ''XOR'') = Inl ReError \<and>
   ''XOR'' \<notin> {''AND'', ''OR''}"
  by (simp add: builtin_main_def in_title_filter_def example_env_def)

text \<open>
  Claim C3, amended. When every regular expression given compiles, \<open>builtin_main\<close>
  raises FeedFilterError exactly when the number of filters built (title filters plus
  link filters) is 0 or more than 2, or the operation is neither AND nor OR, whatever
  the number of filters; in each of these cases nothing has been fetched, and in every
  other case the source is fetched once. When some regular expression does not
  compile, \<open>builtin_main\<close> raises \<^verbatim>\<open>re.error\<close>, again with nothing fetched.
\<close>

theorem builtin_main_filter_errors:
  "(list_all (\<lambda>p. compiled env p \<noteq> None) (title_filters @ url_filters) \<longrightarrow>
      ((\<exists>msg. fst (builtin_main env feed url_filters title_filters operation) =
                Inl (FeedFilterError msg)) \<longleftrightarrow>
       (length title_filters + length url_filters = 0 \<or>
        2 < length title_filters + length url_filters \<or>
        operation \<notin> {''AND'', ''OR''})) \<and>
      snd (builtin_main env feed url_filters title_filters operation) =
        (if length title_filters + length url_filters = 0 \<or>
            2 < length title_filters + length url_filters \<or>
            operation \<notin> {''AND'', ''OR''}
         then [] else [feed])) \<and>
   (\<not> list_all (\<lambda>p. compiled env p \<noteq> None) (title_filters @ url_filters) \<longrightarrow>
      builtin_main env feed url_filters title_filters operation = (Inl ReError, []))"
proof (intro conjI impI)
  assume c: "list_all (\<lambda>p. compiled env p \<noteq> None) (title_filters @ url_filters)"
  show "(\<exists>msg. fst (builtin_main env feed url_filters title_filters operation) =
                Inl (FeedFilterError msg)) \<longleftrightarrow>
       (length title_filters + length url_filters = 0 \<or>
        2 < length title_filters + length url_filters \<or>
        operation \<notin> {''AND'', ''OR''})"
    by (rule builtin_main_outcome(1) [OF c])
  show "snd (builtin_main env feed url_filters title_filters operation) =
        (if length title_filters + length url_filters = 0 \<or>
            2 < length title_filters + length url_filters \<or>
            operation \<notin> {''AND'', ''OR''}
         then [] else [feed])"
    by (rule builtin_main_outcome(2) [OF c])
next
  assume "\<not> list_all (\<lambda>p. compiled env p \<noteq> None) (title_filters @ url_filters)"
  then show "builtin_main env feed url_filters title_filters operation = (Inl ReError, [])"
    by (rule builtin_main_invalid_regex)
qed

theorem builtin_main_filter_errors_witness:
  "list_all (\<lambda>p. compiled example_env p \<noteq> None) ([Source ''Go''] @ [Source ''a'', Source ''b'']) \<and>
   (\<exists>msg. fst (builtin_main example_env ''http://feed'' [Source ''a'', Source ''b'']
                 [Source ''Go''] ''OR'') = Inl (FeedFilterError msg)) \<and>
   snd (builtin_main example_env ''http://feed'' [Source ''a'', Source ''b'']
          [Source ''Go''] ''OR'') = [] \<and>
   builtin_main example_env ''http://feed'' [Source ''a''] [Source ''Go''] ''XOR'' =
     (Inl (FeedFilterError (''Operation can only be AND or OR: '' @ [CHR 0x27] @ ''XOR'' @ [CHR 0x27])),
      []) \<and>
   builtin_main example_env ''http://feed'' [] [Source ''Go''] ''OR'' =
     (Inr ''<rss/>'', [''http://feed''])"
proof -
  have c: "list_all (\<lambda>p. compiled example_env p \<noteq> None)
             ([Source ''Go''] @ [Source ''a'', Source ''b''])"
    by (simp add: compiled_def example_env_def)
  have x: "builtin_main example_env ''http://feed'' [Source ''a''] [Source ''Go''] ''XOR'' =
     (Inl (FeedFilterError (''Operation can only be AND or OR: '' @ [CHR 0x27] @ ''XOR'' @ [CHR 0x27])),
      [])"
    by (simp add: builtin_main_def in_title_filter_def in_url_filter_def example_env_def)
  have g: "fil (contains ''Go'') ''title'' example_feed = Inr example_feed_a"
    by (simp add: fil_def example_entry_a_def example_entry_b_def example_feed_def
          example_feed_a_def)
  have e: "emit_feed example_env example_feed_a = Inr ''<rss/>''"
    by (simp add: emit_feed_def feed_header_def backfill_description_def item_fields_def
          new_feed_def example_feed_a_def example_entry_a_def example_env_def)
  have b: "map_err (in_title_filter example_env) [Source ''Go''] = Inr [fil (contains ''Go'') ''title'']"
    by (simp add: in_title_filter_def example_env_def)
  have ff: "filter_feed example_env ''http://feed'' (fil (contains ''Go'') ''title'') =
              (Inr ''<rss/>'', [''http://feed''])"
    by (simp add: filter_feed_def example_fetch g e)
  have o: "builtin_main example_env ''http://feed'' [] [Source ''Go''] ''OR'' =
     (Inr ''<rss/>'', [''http://feed''])"
    unfolding builtin_main_def b by (simp add: ff)
  have n: "length [Source ''Go''] + length [Source ''a'', Source ''b''] = 3" by simp
  from builtin_main_filter_errors
         [of example_env "[Source ''Go'']" "[Source ''a'', Source ''b'']" "''http://feed''" "''OR''"]
       c
  have "(\<exists>msg. fst (builtin_main example_env ''http://feed'' [Source ''a'', Source ''b'']
                 [Source ''Go''] ''OR'') = Inl (FeedFilterError msg)) \<and>
        snd (builtin_main example_env ''http://feed'' [Source ''a'', Source ''b'']
          [Source ''Go''] ''OR'') = []"
    unfolding n by simp
  with c x o show ?thesis by blast
qed

end
